(* ===== verification/GR_Prelude.thy ===== *)
theory GR_Prelude
  imports Complex_Main "HOL-Library.Char_ord" "HOL-Library.List_Lexorder" "HOL-Library.AList"
begin

text \<open>
  What every component shares: the result type of the Go functions that return a value and an
  error, sequencing over it, decimal rendering (\<open>%d\<close>, \<open>strconv.Itoa\<close>), the collections of
  facts the component proofs add to the simplifier, and a few list lemmas.

  A Go \<open>string\<close> is a sequence of bytes. Here it is an Isabelle \<open>string\<close> (a list of
  8-bit characters), so \<open>length\<close> is Go's \<open>len\<close> and a position is a byte offset. Strings are
  ordered as Go orders them, by bytes (\<open>Char_ord\<close>, \<open>List_Lexorder\<close>).
\<close>

section \<open>Collections of facts\<close>

named_theorems enum_defs \<open>the string constants of the code's enumerations\<close>
named_theorems wf_defs \<open>well-formedness predicates\<close>
named_theorems replacement_intros \<open>facts about the replacements a detector produces\<close>

section \<open>Slices\<close>

text \<open>A Go slice that may be nil, where the program shows the difference; \<open>append(s, xs...)\<close>.\<close>

type_synonym 'a slice = "'a list option"

definition elems :: "'a slice \<Rightarrow> 'a list" where
  "elems s = (case s of None \<Rightarrow> [] | Some xs \<Rightarrow> xs)"

definition append_slice :: "'a slice \<Rightarrow> 'a list \<Rightarrow> 'a slice" where
  "append_slice s xs = (if xs = [] then s else Some (elems s @ xs))"

lemma elems_simps [simp]: "elems None = []" "elems (Some xs) = xs"
  by (simp_all add: elems_def)

lemma append_slice_simps [simp]:
  "append_slice s [] = s" "append_slice (append_slice s xs) ys = append_slice s (xs @ ys)"
  "elems (append_slice s xs) = elems s @ xs" "append_slice None xs = (if xs = [] then None else Some xs)"
  by (simp_all add: append_slice_def)

section \<open>Results: a value or an error\<close>

type_synonym ('e, 'a) result = "'e + 'a"

definition res_bind :: "('e, 'a) result \<Rightarrow> ('a \<Rightarrow> ('e, 'b) result) \<Rightarrow> ('e, 'b) result" where
  "res_bind r f = (case r of Inl e \<Rightarrow> Inl e | Inr a \<Rightarrow> f a)"

lemma res_bind_simps [simp]:
  "res_bind (Inl e) f = Inl e"
  "res_bind (Inr a) f = f a"
  by (simp_all add: res_bind_def)

lemma res_bind_Inr_iff: "res_bind r f = Inr b \<longleftrightarrow> (\<exists>a. r = Inr a \<and> f a = Inr b)"
  by (cases r) auto

lemma res_bind_InrE:
  assumes "res_bind r f = Inr b"
  obtains a where "r = Inr a" "f a = Inr b"
  using assms by (auto simp: res_bind_Inr_iff)

text \<open>\<open>if cond { return nil, err }\<close> at the head of a block.\<close>

definition guard :: "bool \<Rightarrow> 'e \<Rightarrow> ('e, unit) result" where
  "guard ok e = (if ok then Inr () else Inl e)"

lemma guard_Inr [simp]: "guard ok e = Inr u \<longleftrightarrow> ok"
  by (simp add: guard_def)

lemma guard_simps [simp]: "guard True e = Inr ()" "guard False e = Inl e"
  by (simp_all add: guard_def)

text \<open>A loop whose body may return an error: the first error ends it.\<close>

fun res_map :: "('a \<Rightarrow> ('e, 'b) result) \<Rightarrow> 'a list \<Rightarrow> ('e, 'b list) result" where
  "res_map f [] = Inr []"
| "res_map f (x # xs) = res_bind (f x) (\<lambda>y. res_bind (res_map f xs) (\<lambda>ys. Inr (y # ys)))"

lemma res_map_list_all2:
  "res_map f xs = Inr ys \<Longrightarrow> list_all2 (\<lambda>x y. f x = Inr y) xs ys"
  by (induction xs arbitrary: ys) (auto simp: res_bind_Inr_iff)

lemma res_map_InrD:
  "res_map f xs = Inr ys \<Longrightarrow> y \<in> set ys \<Longrightarrow> \<exists>x \<in> set xs. f x = Inr y"
  by (induction xs arbitrary: ys) (auto simp: res_bind_Inr_iff)

section \<open>Decimal rendering\<close>

definition digit_char :: "nat \<Rightarrow> char" where
  "digit_char d = char_of (48 + d)"

fun show_nat :: "nat \<Rightarrow> string" where
  "show_nat n = (if n < 10 then [digit_char n] else show_nat (n div 10) @ [digit_char (n mod 10)])"

declare show_nat.simps [simp del]

definition show_int :: "int \<Rightarrow> string" where
  "show_int k = (if k < 0 then CHR ''-'' # show_nat (nat (- k)) else show_nat (nat k))"

text \<open>Rendering is injective: the value is read back digit by digit.\<close>

definition read_nat :: "string \<Rightarrow> nat" where
  "read_nat s = foldl (\<lambda>acc c. 10 * acc + (of_char c - 48)) 0 s"

lemma of_char_digit_char [simp]: "d < 10 \<Longrightarrow> (of_char (digit_char d) :: nat) = 48 + d"
  by (simp add: digit_char_def)

lemma read_nat_show_nat [simp]: "read_nat (show_nat n) = n"
proof (induction n rule: show_nat.induct)
  case (1 n)
  show ?case
  proof (cases "n < 10")
    case True
    then show ?thesis by (subst show_nat.simps) (simp add: read_nat_def)
  next
    case False
    with 1 have "read_nat (show_nat (n div 10)) = n div 10" by simp
    with False show ?thesis by (subst show_nat.simps) (simp add: read_nat_def)
  qed
qed

lemma show_nat_inject [simp]: "show_nat m = show_nat n \<longleftrightarrow> m = n"
  by (metis read_nat_show_nat)

lemma show_nat_digits: "c \<in> set (show_nat n) \<Longrightarrow> \<exists>d < 10. c = digit_char d"
proof (induction n rule: show_nat.induct)
  case (1 n)
  show ?case
  proof (cases "n < 10")
    case True
    with "1.prems" show ?thesis by (subst (asm) show_nat.simps) auto
  next
    case False
    with "1.prems" have "c \<in> set (show_nat (n div 10)) \<or> c = digit_char (n mod 10)"
      by (subst (asm) show_nat.simps) auto
    with False 1 show ?thesis by (metis mod_less_divisor zero_less_numeral)
  qed
qed

lemma show_nat_bytes: "c \<in> set (show_nat n) \<Longrightarrow> 48 \<le> (of_char c :: nat) \<and> (of_char c :: nat) \<le> 57"
  by (auto dest!: show_nat_digits)

lemma show_nat_not_Nil [simp]: "show_nat n \<noteq> []"
  by (subst show_nat.simps) simp

text \<open>Evaluation of a character given by its code, and of decimal rendering, on literals.\<close>

lemmas char_eval = char_of_def bit_0

lemmas show_eval = show_int_def show_nat.simps digit_char_def char_eval

section \<open>Lists\<close>

lemma take_append_drop_eq:
  "i \<le> j \<Longrightarrow> take i xs @ take (j - i) (drop i xs) @ drop j xs = xs"
  by (metis append.assoc append_take_drop_id le_add_diff_inverse take_add)

lemma sorted_wrt_filter_idem:
  "sorted_wrt P (filter Q xs)" if "sorted_wrt P xs"
  using that by (simp add: sorted_wrt_filter)

lemma list_all_concat_iff: "list_all P (concat xss) \<longleftrightarrow> list_all (list_all P) xss"
  by (induction xss) auto

text \<open>The list without repetitions, each element at its first occurrence.\<close>

fun remdups_first :: "'a list \<Rightarrow> 'a list" where
  "remdups_first [] = []"
| "remdups_first (x # xs) = x # filter (\<lambda>y. y \<noteq> x) (remdups_first xs)"

lemma set_remdups_first [simp]: "set (remdups_first xs) = set xs"
  by (induction xs) auto

lemma distinct_remdups_first [simp]: "distinct (remdups_first xs)"
  by (induction xs) auto

lemma remdups_first_append:
  "remdups_first (xs @ ys) = remdups_first xs @ filter (\<lambda>y. y \<notin> set xs) (remdups_first ys)"
  by (induction xs) (auto intro!: filter_cong)

end
