(* ===== verification/GR_Domain.thy ===== *)
theory GR_Domain
  imports GR_Prelude
begin

text \<open>
  The types of \<open>internal/domain/types.go\<close>: stages, actions, failure modes, requests, content,
  findings, decisions, failures and responses. The enumerations of the code are named string
  constants, so any string can arrive where a stage or an action is expected; the model keeps them
  as strings with the same constants and the same validity tests.

  A decoded JSON value (\<open>any\<close> in the code) is \<open>json\<close>. An object is an association list
  with distinct keys (\<open>wf_json\<close>); the code never depends on the order of a map without sorting
  its keys first. A nil map and an empty one differ only for \<open>content.data\<close>, \<open>subject\<close>,
  \<open>target\<close> and \<open>metadata\<close>, which are therefore options.
\<close>

section \<open>Enumerations\<close>

type_synonym stage = string
type_synonym action = string
type_synonym failure_mode = string
type_synonym failure_scope = string
type_synonym failure_code = string

definition StagePreRequest :: stage where [enum_defs]: "StagePreRequest = ''pre_request''"
definition StagePreModel :: stage where [enum_defs]: "StagePreModel = ''pre_model''"
definition StagePostModel :: stage where [enum_defs]: "StagePostModel = ''post_model''"
definition StagePreTool :: stage where [enum_defs]: "StagePreTool = ''pre_tool''"
definition StagePostTool :: stage where [enum_defs]: "StagePostTool = ''post_tool''"
definition StagePreRetrieval :: stage where [enum_defs]: "StagePreRetrieval = ''pre_retrieval''"
definition StagePostRetrieval :: stage where [enum_defs]: "StagePostRetrieval = ''post_retrieval''"
definition StageIngestion :: stage where [enum_defs]: "StageIngestion = ''ingestion''"

definition Stage_Valid :: "stage \<Rightarrow> bool" where
  "Stage_Valid s \<longleftrightarrow> s \<in> set [StagePreRequest, StagePreModel, StagePostModel, StagePreTool,
     StagePostTool, StagePreRetrieval, StagePostRetrieval, StageIngestion]"

definition ActionAllow :: action where [enum_defs]: "ActionAllow = ''allow''"
definition ActionBlock :: action where [enum_defs]: "ActionBlock = ''block''"
definition ActionRedact :: action where [enum_defs]: "ActionRedact = ''redact''"
definition ActionMonitor :: action where [enum_defs]: "ActionMonitor = ''monitor''"

definition FailureOpen :: failure_mode where [enum_defs]: "FailureOpen = ''open''"
definition FailureClosed :: failure_mode where [enum_defs]: "FailureClosed = ''closed''"
definition FailureMonitor :: failure_mode where [enum_defs]: "FailureMonitor = ''monitor''"

definition FailureMode_Valid :: "failure_mode \<Rightarrow> bool" where
  "FailureMode_Valid m \<longleftrightarrow> m = FailureOpen \<or> m = FailureClosed \<or> m = FailureMonitor"

definition FailureScopePolicy :: failure_scope where [enum_defs]: "FailureScopePolicy = ''policy''"
definition FailureScopeDetector :: failure_scope
  where [enum_defs]: "FailureScopeDetector = ''detector''"

definition FailurePolicyTimeout :: failure_code
  where [enum_defs]: "FailurePolicyTimeout = ''POLICY_TIMEOUT''"
definition FailureDetectorTimeout :: failure_code
  where [enum_defs]: "FailureDetectorTimeout = ''DETECTOR_TIMEOUT''"
definition FailureDetectorUnavailable :: failure_code
  where [enum_defs]: "FailureDetectorUnavailable = ''DETECTOR_UNAVAILABLE''"
definition FailureDetectorInvalidResponse :: failure_code
  where [enum_defs]: "FailureDetectorInvalidResponse = ''DETECTOR_INVALID_RESPONSE''"
definition FailureDetectorUnsupported :: failure_code
  where [enum_defs]: "FailureDetectorUnsupported = ''DETECTOR_UNSUPPORTED_INPUT''"
definition FailureDetectorInternal :: failure_code
  where [enum_defs]: "FailureDetectorInternal = ''DETECTOR_INTERNAL_ERROR''"

definition FailureCode_Valid :: "failure_code \<Rightarrow> bool" where
  "FailureCode_Valid c \<longleftrightarrow> c \<in> set [FailurePolicyTimeout, FailureDetectorTimeout,
     FailureDetectorUnavailable, FailureDetectorInvalidResponse, FailureDetectorUnsupported,
     FailureDetectorInternal]"

section \<open>JSON values\<close>

datatype json =
    JNull
  | JBool bool
  | JNum rat
  | JStr string
  | JArr "json list"
  | JObj "(string \<times> json) list"

type_synonym json_object = "(string \<times> json) list"

fun wf_json :: "json \<Rightarrow> bool" where
  "wf_json (JArr xs) = (\<forall>x \<in> set xs. wf_json x)"
| "wf_json (JObj kvs) = (distinct (map fst kvs) \<and> (\<forall>kv \<in> set kvs. wf_json (snd kv)))"
| "wf_json _ = True"

text \<open>\<open>m[key]\<close> on a possibly nil map: the zero value of \<open>any\<close> is nil.\<close>

definition obj_get :: "json_object option \<Rightarrow> string \<Rightarrow> json option" where
  "obj_get m key = (case m of None \<Rightarrow> None | Some kvs \<Rightarrow> map_of kvs key)"

section \<open>Requests and content\<close>

record message =
  msg_Role :: string
  msg_Content :: string

record content_envelope =
  ce_Type :: string
  ce_Text :: string
  ce_Messages :: "message list"
  ce_Data :: "json_object option"

record guardrail_selector =
  gs_Profile :: string
  gs_Policies :: "string list"

record evaluation_request =
  req_RequestID :: string
  req_Stage :: stage
  req_TenantID :: string
  req_Subject :: "json_object option"
  req_Target :: "json_object option"
  req_Guardrails :: guardrail_selector
  req_Content :: content_envelope
  req_Metadata :: "json_object option"
  req_EncodedBytes :: int

section \<open>Findings, decisions, failures and responses\<close>

record location =
  loc_Path :: string
  loc_Start :: int
  loc_End :: int

record finding =
  fi_DetectorID :: string
  fi_Category :: string
  fi_Confidence :: rat
  fi_Severity :: string
  fi_Locations :: "location list"
  fi_Attributes :: "(string \<times> json) list"

record decision =
  dec_Action :: action
  dec_Reason :: string
  dec_TransformedContent :: "content_envelope option"

record timing =
  tm_TotalMS :: int
  tm_Detectors :: "(string \<times> int) list"
  tm_Policies :: "(string \<times> int) list"

record detector_failure =
  df_PolicyID :: string
  df_DetectorID :: string
  df_Scope :: failure_scope
  df_Code :: failure_code
  df_FailureMode :: failure_mode
  df_TimeoutMS :: int
  df_Retryable :: bool

record evaluation_response =
  resp_EvaluationID :: string
  resp_RequestID :: string
  resp_Decision :: decision
  resp_AppliedPolicies :: "string slice"
  resp_Findings :: "finding list"
  resp_DetectorFailures :: "detector_failure list"
  resp_Timing :: timing

section \<open>Facts about the enumerations\<close>

lemma failure_mode_cases [consumes 1, case_names mode_open mode_closed mode_monitor]:
  assumes "FailureMode_Valid m"
  obtains "m = FailureOpen" | "m = FailureClosed" | "m = FailureMonitor"
  using assms by (auto simp: FailureMode_Valid_def)

lemma action_distinct [simp]:
  "ActionAllow \<noteq> ActionBlock" "ActionAllow \<noteq> ActionRedact" "ActionAllow \<noteq> ActionMonitor"
  "ActionBlock \<noteq> ActionAllow" "ActionBlock \<noteq> ActionRedact" "ActionBlock \<noteq> ActionMonitor"
  "ActionRedact \<noteq> ActionAllow" "ActionRedact \<noteq> ActionBlock" "ActionRedact \<noteq> ActionMonitor"
  "ActionMonitor \<noteq> ActionAllow" "ActionMonitor \<noteq> ActionBlock" "ActionMonitor \<noteq> ActionRedact"
  by (simp_all add: enum_defs)

lemma failure_mode_distinct [simp]:
  "FailureOpen \<noteq> FailureClosed" "FailureOpen \<noteq> FailureMonitor" "FailureClosed \<noteq> FailureOpen"
  "FailureClosed \<noteq> FailureMonitor" "FailureMonitor \<noteq> FailureOpen" "FailureMonitor \<noteq> FailureClosed"
  by (simp_all add: enum_defs)

lemma failure_scope_distinct [simp]:
  "FailureScopePolicy \<noteq> FailureScopeDetector" "FailureScopeDetector \<noteq> FailureScopePolicy"
  by (simp_all add: enum_defs)

end
