(* ===== verification/GR_Time.thy ===== *)
theory GR_Time
  imports GR_Prelude
begin

text \<open>
  Go's \<open>time.Duration\<close>, a count of nanoseconds in an \<open>int64\<close>, as an integer, and
  \<open>time.ParseDuration\<close>. Its overflow tests are written out (\<open>1<<63\<close>); the fractional part,
  which Go scales in floating point, is scaled exactly and rounded down.
\<close>

type_synonym duration = int

abbreviation microsecond :: duration where "microsecond \<equiv> 1000"
abbreviation millisecond :: duration where "millisecond \<equiv> 1000000"
abbreviation second :: duration where "second \<equiv> 1000000000"
abbreviation minute :: duration where "minute \<equiv> 60000000000"
abbreviation hour :: duration where "hour \<equiv> 3600000000000"

text \<open>Integer division of Go truncates towards zero.\<close>

definition go_div :: "int \<Rightarrow> int \<Rightarrow> int" where
  "go_div a b = sgn a * sgn b * (\<bar>a\<bar> div \<bar>b\<bar>)"

lemma go_div_nonneg: "0 \<le> a \<Longrightarrow> 0 < b \<Longrightarrow> go_div a b = a div b"
  by (cases "a = 0") (auto simp: go_div_def)

lemma go_div_nonpos: "a \<le> 0 \<Longrightarrow> 0 < b \<Longrightarrow> go_div a b = - (- a div b)"
  by (cases "a = 0") (auto simp: go_div_def)

definition Milliseconds :: "duration \<Rightarrow> int" where
  "Milliseconds d = go_div d millisecond"

section \<open>\<open>time.ParseDuration\<close>\<close>

definition is_digit :: "char \<Rightarrow> bool" where
  "is_digit c \<longleftrightarrow> 48 \<le> (of_char c :: nat) \<and> (of_char c :: nat) \<le> 57"

definition digit_val :: "char \<Rightarrow> int" where
  "digit_val c = int (of_char c) - 48"

definition two63 :: int where
  "two63 = 9223372036854775808"

text \<open>The leading digits as a number; \<open>None\<close> on overflow.\<close>

fun leading_int :: "int \<Rightarrow> string \<Rightarrow> (int \<times> string) option" where
  "leading_int x [] = Some (x, [])"
| "leading_int x (c # s) =
     (if \<not> is_digit c then Some (x, c # s)
      else if x > two63 div 10 then None
      else let y = x * 10 + digit_val c in if y > two63 then None else leading_int y s)"

text \<open>The digits after the point with their scale; digits beyond the range are dropped.\<close>

fun leading_fraction :: "int \<Rightarrow> int \<Rightarrow> bool \<Rightarrow> string \<Rightarrow> int \<times> int \<times> string" where
  "leading_fraction x scale overflow [] = (x, scale, [])"
| "leading_fraction x scale overflow (c # s) =
     (if \<not> is_digit c then (x, scale, c # s)
      else if overflow \<or> x > (two63 - 1) div 10 then leading_fraction x scale True s
      else let y = x * 10 + digit_val c in
        if y > two63 then leading_fraction x scale True s
        else leading_fraction y (scale * 10) overflow s)"

text \<open>
  The unit names; the two spellings of the micro sign are the UTF-8 bytes of \<open>U+00B5\<close> and
  \<open>U+03BC\<close>.
\<close>

definition unit_map :: "string \<Rightarrow> duration option" where
  "unit_map u = map_of [(''ns'', 1), (''us'', microsecond),
     ([CHR 0xC2, CHR 0xB5, CHR ''s''], microsecond), ([CHR 0xCE, CHR 0xBC, CHR ''s''], microsecond),
     (''ms'', millisecond), (''s'', second), (''m'', minute), (''h'', hour)] u"

definition is_unit_char :: "char \<Rightarrow> bool" where
  "is_unit_char c \<longleftrightarrow> \<not> (c = CHR ''.'' \<or> is_digit c)"

text \<open>The optional fraction: its digits, their scale, the rest, and whether there were any.\<close>

definition fraction_part :: "string \<Rightarrow> int \<times> int \<times> string \<times> bool" where
  "fraction_part s = (if s \<noteq> [] \<and> hd s = CHR ''.'' then
       (let (f, scale, r) = leading_fraction 0 1 False (tl s) in (f, scale, r, length (tl s) \<noteq> length r))
     else (0, 1, s, False))"

text \<open>One number with its unit, from a nonempty string: the nanoseconds and the rest.\<close>

definition parse_component :: "string \<Rightarrow> (int \<times> string) option" where
  "parse_component s =
     (if \<not> (hd s = CHR ''.'' \<or> is_digit (hd s)) then None
      else case leading_int 0 s of None \<Rightarrow> None
      | Some (v, s1) \<Rightarrow>
        (let pre = length s \<noteq> length s1; (f, scale, s2, post) = fraction_part s1;
             u = takeWhile is_unit_char s2; rest = dropWhile is_unit_char s2 in
         if \<not> pre \<and> \<not> post then None
         else if u = [] then None
         else case unit_map u of None \<Rightarrow> None
         | Some unit \<Rightarrow>
           if v > two63 div unit then None
           else let w = v * unit + (if f > 0 then f * unit div scale else 0) in
             if w > two63 then None else Some (w, rest)))"

lemma leading_int_length: "leading_int x s = Some (v, r) \<Longrightarrow> length r \<le> length s"
  by (induction x s rule: leading_int.induct) (auto simp: Let_def split: if_splits)

lemma leading_fraction_length: "leading_fraction x sc ov s = (f, sc', r) \<Longrightarrow> length r \<le> length s"
  by (induction x sc ov s rule: leading_fraction.induct) (auto simp: Let_def split: if_splits)

lemma fraction_part_length: "fraction_part s = (f, sc, r, post) \<Longrightarrow> length r \<le> length s"
  by (cases s) (auto simp: fraction_part_def split: if_splits prod.splits dest!: leading_fraction_length)

lemma dropWhile_shorter: "takeWhile P s \<noteq> [] \<Longrightarrow> length (dropWhile P s) < length s"
  by (cases s) (auto split: if_splits simp: le_imp_less_Suc length_dropWhile_le)

lemma parse_component_length:
  assumes "parse_component s = Some (w, rest)"
  shows "length rest < length s"
proof -
  from assms obtain v s1 where 1: "leading_int 0 s = Some (v, s1)"
    by (auto simp: parse_component_def split: if_splits option.splits)
  obtain f scale s2 post where 2: "fraction_part s1 = (f, scale, s2, post)"
    by (rule prod_cases4)
  from assms 1 2 have "takeWhile is_unit_char s2 \<noteq> []" "rest = dropWhile is_unit_char s2"
    by (auto simp: parse_component_def Let_def split: if_splits option.splits)
  with dropWhile_shorter[of is_unit_char s2] fraction_part_length[OF 2] leading_int_length[OF 1]
  show ?thesis by simp
qed

function parse_components :: "int \<Rightarrow> string \<Rightarrow> int option" where
  "parse_components d s = (if s = [] then Some d
     else case parse_component s of None \<Rightarrow> None
     | Some (v, rest) \<Rightarrow> if d + v > two63 then None else parse_components (d + v) rest)"
  by pat_completeness auto
termination
  by (relation "measure (length \<circ> snd)") (auto dest: parse_component_length)

declare parse_components.simps [simp del]

definition ParseDuration :: "string \<Rightarrow> duration option" where
  "ParseDuration s =
     (let neg = (s \<noteq> [] \<and> hd s = CHR ''-'');
          t = (if s \<noteq> [] \<and> (hd s = CHR ''-'' \<or> hd s = CHR ''+'') then tl s else s) in
      if t = ''0'' then Some 0
      else if t = [] then None
      else case parse_components 0 t of None \<Rightarrow> None
      | Some d \<Rightarrow> if neg then Some (- d) else if d > two63 - 1 then None else Some d)"

text \<open>The result fits an \<open>int64\<close>, so the arithmetic of the program on timeouts starts in range.\<close>

lemma digit_val_nonneg: "is_digit c \<Longrightarrow> 0 \<le> digit_val c"
  by (simp add: is_digit_def digit_val_def)

lemma leading_int_nonneg: "leading_int x s = Some (v, r) \<Longrightarrow> 0 \<le> x \<Longrightarrow> 0 \<le> v"
  by (induction x s rule: leading_int.induct) (auto simp: Let_def digit_val_nonneg split: if_splits)

lemma unit_map_pos: "unit_map u = Some k \<Longrightarrow> 0 < k"
  by (auto simp: unit_map_def split: if_splits)

end
