(* ===== verification/GR_Config.thy ===== *)
theory GR_Config
  imports GR_Domain GR_Time
begin

text \<open>
  \<open>internal/config/config.go\<close>: the configuration as the YAML decoder fills it, canonical
  identifiers, and \<open>Load\<close>, which parses and checks the timeouts. Reading the file and decoding
  the YAML (\<open>gopkg.in/yaml.v3\<close>) are arguments of \<open>Load\<close>. An optional detector section (a
  pointer in the code) is an option; \<open>float64\<close> settings are reals.
\<close>

section \<open>Configuration types\<close>

record auth_principal =
  ap_ID :: string
  ap_TokenEnv :: string
  ap_Tenants :: "string list"
  ap_AllowTenantless :: bool
  ap_PolicyReader :: bool
  ap_MetricsReader :: bool

record auth_config =
  ac_Enabled :: bool
  ac_Principals :: "auth_principal list"

record metadata =
  meta_ID :: string
  meta_Version :: int

record regex_config =
  rx_Pattern :: string
  rx_Category :: string
  rx_Replacement :: string
  rx_Severity :: string

record keywords_config =
  kw_Values :: "string list"
  kw_Category :: string
  kw_CaseSensitive :: bool
  kw_Replacement :: string
  kw_Severity :: string

record request_limits =
  rl_MaxRequestBytes :: int
  rl_MaxMessages :: int
  rl_MaxMessageBytes :: int
  rl_MaxTools :: int
  rl_MaxAttachments :: int
  rl_MaxEstimatedTokens :: int
  rl_AllowedMIMETypes :: "string list"
  rl_Category :: string
  rl_Severity :: string

record allow_deny =
  ad_Selector :: string
  ad_Allow :: "string list"
  ad_Deny :: "string list"
  ad_CaseSensitive :: bool
  ad_Category :: string
  ad_Severity :: string

record json_schema =
  js_Target :: string
  js_Schema :: json_object
  js_Category :: string
  js_Severity :: string

record secrets_config =
  sec_Types :: "string list"
  sec_MinEntropy :: real
  sec_MinEntropyLength :: int
  sec_CategoryPrefix :: string
  sec_Replacement :: string
  sec_Severity :: string

record detector =
  det_ID :: string
  det_Regex :: "regex_config option"
  det_Keywords :: "keywords_config option"
  det_RequestLimits :: "request_limits option"
  det_AllowDeny :: "allow_deny option"
  det_JSONSchema :: "json_schema option"
  det_Secrets :: "secrets_config option"
  det_Timeout :: duration
  det_TimeoutRaw :: string

record policy_spec =
  spec_Stages :: "stage list"
  spec_Action :: action
  spec_FailureMode :: failure_mode
  spec_Timeout :: duration
  spec_TimeoutRaw :: string
  spec_Detectors :: "detector list"

record policy =
  pol_Metadata :: metadata
  pol_Spec :: policy_spec

record profile =
  prof_Metadata :: metadata
  prof_Policies :: "string list"

record config =
  cfg_PlatformMandatory :: "string list"
  cfg_Auth :: auth_config
  cfg_Tenants :: "(string \<times> string list) list"
  cfg_Policies :: "policy list"
  cfg_Profiles :: "profile list"

definition canonical_id :: "metadata \<Rightarrow> string" where
  "canonical_id m = meta_ID m @ ''@'' @ show_int (meta_Version m)"

definition Policy_CanonicalID :: "policy \<Rightarrow> string" where
  "Policy_CanonicalID p = canonical_id (pol_Metadata p)"

definition Profile_CanonicalID :: "profile \<Rightarrow> string" where
  "Profile_CanonicalID p = canonical_id (prof_Metadata p)"

section \<open>\<open>Load\<close>\<close>

datatype load_error =
    ReadConfig string
  | ParseConfig string
  | PolicyTimeoutInvalid string
  | PolicyTimeoutNotPositive string
  | DetectorTimeoutInvalid string
  | DetectorTimeoutNotPositive string

definition default_policy_timeout :: duration where
  "default_policy_timeout = 100 * millisecond"

definition load_detector :: "detector \<Rightarrow> (load_error, detector) result" where
  "load_detector d =
     (if det_TimeoutRaw d = '''' then Inr d
      else case ParseDuration (det_TimeoutRaw d) of
        None \<Rightarrow> Inl (DetectorTimeoutInvalid (det_ID d))
      | Some t \<Rightarrow> if t \<le> 0 then Inl (DetectorTimeoutNotPositive (det_ID d))
          else Inr (d\<lparr>det_Timeout := t\<rparr>))"

definition load_timeout :: "policy \<Rightarrow> (load_error, duration) result" where
  "load_timeout p =
     (if spec_TimeoutRaw (pol_Spec p) = '''' then Inr default_policy_timeout
      else case ParseDuration (spec_TimeoutRaw (pol_Spec p)) of
        None \<Rightarrow> Inl (PolicyTimeoutInvalid (Policy_CanonicalID p))
      | Some t \<Rightarrow> if t \<le> 0 then Inl (PolicyTimeoutNotPositive (Policy_CanonicalID p)) else Inr t)"

definition load_policy :: "policy \<Rightarrow> (load_error, policy) result" where
  "load_policy p =
     res_bind (load_timeout p)
       (\<lambda>t. res_bind (res_map load_detector (spec_Detectors (pol_Spec p)))
         (\<lambda>ds. Inr (p\<lparr>pol_Spec := (pol_Spec p)\<lparr>spec_Timeout := t, spec_Detectors := ds\<rparr>\<rparr>)))"

definition Load :: "(string \<Rightarrow> (string, string) result) \<Rightarrow> (string \<Rightarrow> (string, config) result) \<Rightarrow>
    string \<Rightarrow> (load_error, config) result" where
  "Load read_file unmarshal path =
     (case read_file path of Inl e \<Rightarrow> Inl (ReadConfig e)
      | Inr raw \<Rightarrow> (case unmarshal raw of Inl e \<Rightarrow> Inl (ParseConfig e)
        | Inr cfg \<Rightarrow> res_bind (res_map load_policy (cfg_Policies cfg))
            (\<lambda>ps. Inr (cfg\<lparr>cfg_Policies := ps\<rparr>))))"

section \<open>Canonical identifiers\<close>

lemma show_nat_no_at [simp]: "CHR ''@'' \<notin> set (show_nat n)"
  by (auto dest: show_nat_bytes)

lemma show_nat_no_minus [simp]: "CHR ''-'' \<notin> set (show_nat n)"
  by (auto dest: show_nat_bytes)

lemma show_int_no_at [simp]: "CHR ''@'' \<notin> set (show_int k)"
  by (simp add: show_int_def)

lemma hd_show_nat [simp]: "hd (show_nat n) \<noteq> CHR ''-''"
  by (metis hd_in_set show_nat_no_minus show_nat_not_Nil)

lemma show_int_inject [simp]: "show_int a = show_int b \<longleftrightarrow> a = b"
proof
  assume eq: "show_int a = show_int b"
  have neg: "k < 0 \<longleftrightarrow> hd (show_int k) = CHR ''-''" for k
    by (simp add: show_int_def)
  have "a < 0 \<longleftrightarrow> b < 0"
    using eq by (simp only: neg)
  with eq show "a = b" by (auto simp: show_int_def split: if_splits)
qed simp

lemma append_sep_inject:
  assumes "c \<notin> set y" "c \<notin> set y'"
  shows "x @ c # y = x' @ c # y' \<longleftrightarrow> x = x' \<and> y = y'"
proof
  assume eq: "x @ c # y = x' @ c # y'"
  have "takeWhile ((\<noteq>) c) (rev (x @ c # y)) = rev y" "takeWhile ((\<noteq>) c) (rev (x' @ c # y')) = rev y'"
    using assms by (auto simp: takeWhile_append takeWhile_eq_all_conv)
  with eq have "y = y'" by simp
  with eq show "x = x' \<and> y = y'" by simp
qed simp

text \<open>
  An identifier names one \<open>(id, version)\<close> pair: the version is what follows the last \<open>@\<close>, even if
  the id contains one.
\<close>

lemma canonical_id_inject [simp]:
  "canonical_id m = canonical_id m' \<longleftrightarrow> meta_ID m = meta_ID m' \<and> meta_Version m = meta_Version m'"
  by (simp add: canonical_id_def append_sep_inject)

section \<open>Every timeout \<open>Load\<close> accepts is positive\<close>

definition loaded_policy :: "policy \<Rightarrow> bool" where [wf_defs]:
  "loaded_policy p \<longleftrightarrow> 0 < spec_Timeout (pol_Spec p) \<and>
     (\<forall>d \<in> set (spec_Detectors (pol_Spec p)). det_TimeoutRaw d \<noteq> '''' \<longrightarrow> 0 < det_Timeout d)"

lemma load_detector_positive:
  "load_detector d = Inr d' \<Longrightarrow> det_TimeoutRaw d' \<noteq> '''' \<Longrightarrow> 0 < det_Timeout d'"
  by (auto simp: load_detector_def split: if_splits option.splits)

lemma load_detectors_positive:
  "res_map load_detector ds = Inr ds' \<Longrightarrow> d' \<in> set ds' \<Longrightarrow> det_TimeoutRaw d' \<noteq> [] \<Longrightarrow> 0 < det_Timeout d'"
  using res_map_InrD[of load_detector ds ds' d'] load_detector_positive by blast

lemma load_timeout_positive: "load_timeout p = Inr t \<Longrightarrow> 0 < t"
  by (auto simp: load_timeout_def default_policy_timeout_def split: if_splits option.splits)

lemma load_policy_positive: "load_policy p = Inr p' \<Longrightarrow> loaded_policy p'"
  by (auto simp: load_policy_def loaded_policy_def load_timeout_positive
      elim!: res_bind_InrE dest: load_detectors_positive)

section \<open>The shipped configuration\<close>

text \<open>
  The parts of \<open>configs/config.yaml\<close> the examples use: the mandatory request limits and secret
  detection, and the optional injection keywords and model list of profile \<open>baseline@1\<close>.
\<close>

definition blank_detector :: detector where
  "blank_detector = \<lparr>det_ID = '''', det_Regex = None, det_Keywords = None, det_RequestLimits = None,
     det_AllowDeny = None, det_JSONSchema = None, det_Secrets = None,
     det_Timeout = 10 * millisecond, det_TimeoutRaw = ''10ms''\<rparr>"

definition demo_policy :: "string \<Rightarrow> stage list \<Rightarrow> action \<Rightarrow> detector \<Rightarrow> policy" where
  "demo_policy i stages act d = \<lparr>pol_Metadata = \<lparr>meta_ID = i, meta_Version = 1\<rparr>,
     pol_Spec = \<lparr>spec_Stages = stages, spec_Action = act, spec_FailureMode = FailureClosed,
       spec_Timeout = 25 * millisecond, spec_TimeoutRaw = ''25ms'', spec_Detectors = [d]\<rparr>\<rparr>"

definition demo_limits :: policy where
  "demo_limits = demo_policy ''platform/request-limits'' [StagePreModel, StagePostModel] ActionBlock
     (blank_detector\<lparr>det_ID := ''builtin/request-limits@1'', det_RequestLimits := Some
       \<lparr>rl_MaxRequestBytes = 900000, rl_MaxMessages = 256, rl_MaxMessageBytes = 262144, rl_MaxTools = 128,
        rl_MaxAttachments = 32, rl_MaxEstimatedTokens = 262144, rl_AllowedMIMETypes = [],
        rl_Category = '''', rl_Severity = ''''\<rparr>\<rparr>)"

definition demo_secrets :: policy where
  "demo_secrets = demo_policy ''platform/secrets'' [StagePreModel, StagePostTool] ActionRedact
     (blank_detector\<lparr>det_ID := ''builtin/structured-secrets@1'', det_Secrets := Some
       \<lparr>sec_Types = [''known_token''], sec_MinEntropy = 0, sec_MinEntropyLength = 0,
        sec_CategoryPrefix = '''', sec_Replacement = ''<SECRET>'', sec_Severity = ''critical''\<rparr>\<rparr>)"

definition demo_keywords :: policy where
  "demo_keywords = demo_policy ''platform/injection-keywords'' [StagePreModel] ActionBlock
     (blank_detector\<lparr>det_ID := ''builtin/injection-keywords@1'', det_Keywords := Some
       \<lparr>kw_Values = [''ignore''], kw_Category = ''prompt_injection.indicator'', kw_CaseSensitive = False,
        kw_Replacement = '''', kw_Severity = ''high''\<rparr>\<rparr>)"

definition demo_config :: config where
  "demo_config = \<lparr>cfg_PlatformMandatory = [''platform/request-limits@1''],
     cfg_Auth = \<lparr>ac_Enabled = True, ac_Principals = [\<lparr>ap_ID = ''local/demo-client'',
       ap_TokenEnv = ''THINKPIXELGR_DEMO_TOKEN'', ap_Tenants = [''demo''], ap_AllowTenantless = False,
       ap_PolicyReader = True, ap_MetricsReader = True\<rparr>]\<rparr>,
     cfg_Tenants = [(''demo'', [''platform/secrets@1''])],
     cfg_Policies = [demo_limits, demo_secrets, demo_keywords],
     cfg_Profiles = [\<lparr>prof_Metadata = \<lparr>meta_ID = ''baseline'', meta_Version = 1\<rparr>,
       prof_Policies = [''platform/injection-keywords@1'']\<rparr>]\<rparr>"

lemmas demo_defs = demo_config_def demo_limits_def demo_secrets_def demo_keywords_def demo_policy_def
  blank_detector_def

end
