(* ===== verification/GR_Strings.thy ===== *)
theory GR_Strings
  imports GR_Prelude
begin

text \<open>
  The parts of Go's \<open>strings\<close>, \<open>unicode/utf8\<close> and \<open>strconv\<close> packages the program uses, over
  byte strings: decoding and encoding of UTF-8, white space and \<open>TrimSpace\<close>/\<open>Fields\<close>,
  \<open>ToLower\<close>, \<open>EqualFold\<close>, \<open>Index\<close>, \<open>ReplaceAll\<close>, \<open>Split\<close> and \<open>Quote\<close> (the
  \<open>%q\<close> verb). Outside ASCII, case mapping and printability are data tables of Go's \<open>unicode\<close>
  package; they are the argument \<open>unicode_tables\<close> and are consulted for runes from 128 only.
\<close>

record unicode_tables =
  uni_lower :: "nat \<Rightarrow> nat"
  uni_same_fold :: "nat \<Rightarrow> nat \<Rightarrow> bool"
  uni_print :: "nat \<Rightarrow> bool"

text \<open>Tables for the examples, whose strings are ASCII: they map nothing beyond it.\<close>

definition ascii_tables :: unicode_tables where
  "ascii_tables = \<lparr>uni_lower = (\<lambda>r. r), uni_same_fold = (=), uni_print = (\<lambda>_. True)\<rparr>"

section \<open>UTF-8\<close>

abbreviation byte :: "char \<Rightarrow> nat" where
  "byte c \<equiv> of_char c"

definition rune_error :: nat where
  "rune_error = 0xFFFD"

definition is_cont :: "nat \<Rightarrow> bool" where
  "is_cont b \<longleftrightarrow> 0x80 \<le> b \<and> b \<le> 0xBF"

text \<open>The bounds on the second byte of a sequence, given its first byte.\<close>

definition second_ok :: "nat \<Rightarrow> nat \<Rightarrow> bool" where
  "second_ok b0 b1 \<longleftrightarrow>
     (if b0 = 0xE0 then 0xA0 \<le> b1 \<and> b1 \<le> 0xBF
      else if b0 = 0xED then 0x80 \<le> b1 \<and> b1 \<le> 0x9F
      else if b0 = 0xF0 then 0x90 \<le> b1 \<and> b1 \<le> 0xBF
      else if b0 = 0xF4 then 0x80 \<le> b1 \<and> b1 \<le> 0x8F
      else is_cont b1)"

text \<open>How many bytes a sequence takes, by its first byte; 0 for a byte that starts none.\<close>

definition seq_len :: "nat \<Rightarrow> nat" where
  "seq_len b0 = (if b0 < 0x80 then 1 else if 0xC2 \<le> b0 \<and> b0 \<le> 0xDF then 2
     else if 0xE0 \<le> b0 \<and> b0 \<le> 0xEF then 3 else if 0xF0 \<le> b0 \<and> b0 \<le> 0xF4 then 4 else 0)"

text \<open>
  \<open>utf8.DecodeRuneInString\<close>: the first rune and its width. An invalid or truncated sequence is
  the replacement rune of width 1, the empty string has width 0.
\<close>

definition decode_rune :: "string \<Rightarrow> nat \<times> nat" where
  "decode_rune s = (case s of [] \<Rightarrow> (rune_error, 0)
   | c0 # rest \<Rightarrow>
      (let b0 = byte c0; n = seq_len b0 in
       if n = 1 then (b0, 1)
       else if n = 0 \<or> length rest < n - 1 then (rune_error, 1)
       else let b1 = byte (rest ! 0) in
         if \<not> second_ok b0 b1 then (rune_error, 1)
         else if n = 2 then ((b0 mod 0x20) * 0x40 + b1 mod 0x40, 2)
         else let b2 = byte (rest ! 1) in
           if \<not> is_cont b2 then (rune_error, 1)
           else if n = 3 then ((b0 mod 0x10) * 0x1000 + (b1 mod 0x40) * 0x40 + b2 mod 0x40, 3)
           else let b3 = byte (rest ! 2) in
             if \<not> is_cont b3 then (rune_error, 1)
             else ((b0 mod 8) * 0x40000 + (b1 mod 0x40) * 0x1000 + (b2 mod 0x40) * 0x40 + b3 mod 0x40, 4)))"

lemma decode_rune_width:
  "s \<noteq> [] \<Longrightarrow> 1 \<le> snd (decode_rune s) \<and> snd (decode_rune s) \<le> length s"
  by (cases s) (auto simp: decode_rune_def Let_def seq_len_def Suc_le_eq)

lemma decode_rune_Nil [simp]: "decode_rune [] = (rune_error, 0)"
  by (simp add: decode_rune_def)

lemma decode_rune_ascii: "byte c < 128 \<Longrightarrow> decode_rune (c # s) = (byte c, 1)"
  by (simp add: decode_rune_def seq_len_def Let_def)

text \<open>\<open>utf8.AppendRune\<close> (surrogates and runes beyond \<open>0x10FFFF\<close> encode the replacement rune).\<close>

definition encode_rune :: "nat \<Rightarrow> string" where
  "encode_rune r0 =
     (let r = (if r0 > 0x10FFFF \<or> 0xD800 \<le> r0 \<and> r0 \<le> 0xDFFF then rune_error else r0) in
      if r < 0x80 then [char_of r]
      else if r < 0x800 then [char_of (0xC0 + r div 0x40), char_of (0x80 + r mod 0x40)]
      else if r < 0x10000 then
        [char_of (0xE0 + r div 0x1000), char_of (0x80 + r div 0x40 mod 0x40), char_of (0x80 + r mod 0x40)]
      else [char_of (0xF0 + r div 0x40000), char_of (0x80 + r div 0x1000 mod 0x40),
            char_of (0x80 + r div 0x40 mod 0x40), char_of (0x80 + r mod 0x40)])"

lemma encode_rune_not_Nil [simp]: "encode_rune r \<noteq> []"
  by (simp add: encode_rune_def Let_def)

lemma encode_rune_ascii: "r < 128 \<Longrightarrow> encode_rune r = [char_of r]"
  by (simp add: encode_rune_def Let_def)

text \<open>
  \<open>for i, r := range s\<close>: the runes in order with the bytes each was decoded from. A segment of
  one byte whose rune is the replacement rune is an invalid byte.
\<close>

function rune_segs :: "string \<Rightarrow> (nat \<times> string) list" where
  "rune_segs s = (if s = [] then []
     else let (r, w) = decode_rune s in (r, take w s) # rune_segs (drop w s))"
  by pat_completeness auto
termination
  by (relation "measure length") (auto dest!: decode_rune_width simp: prod_eq_iff)

declare rune_segs.simps [simp del]

lemma rune_segs_Nil [simp]: "rune_segs [] = []"
  by (simp add: rune_segs.simps)

lemma rune_segs_Cons:
  "rune_segs (c # s) = (let (r, w) = decode_rune (c # s) in (r, take w (c # s)) # rune_segs (drop w (c # s)))"
  by (subst rune_segs.simps) simp

lemma rune_segs_ascii: "byte c < 128 \<Longrightarrow> rune_segs (c # s) = (byte c, [c]) # rune_segs s"
  by (simp add: rune_segs_Cons decode_rune_ascii)

lemma rune_segs_eq_Nil [simp]: "rune_segs s = [] \<longleftrightarrow> s = []"
  by (cases s) (auto simp: rune_segs_Cons Let_def split: prod.splits)

lemma concat_rune_segs [simp]: "concat (map snd (rune_segs s)) = s"
  by (induction s rule: rune_segs.induct) (subst rune_segs.simps, auto split: prod.splits)

definition ascii_string :: "string \<Rightarrow> bool" where
  "ascii_string s \<longleftrightarrow> (\<forall>c \<in> set s. byte c < 128)"

lemma ascii_string_simps [simp]:
  "ascii_string []" "ascii_string (c # s) \<longleftrightarrow> byte c < 128 \<and> ascii_string s"
  "ascii_string (s @ t) \<longleftrightarrow> ascii_string s \<and> ascii_string t"
  by (auto simp: ascii_string_def)

lemma rune_segs_ascii_string: "ascii_string s \<Longrightarrow> rune_segs s = map (\<lambda>c. (byte c, [c])) s"
  by (induction s) (auto simp: rune_segs_ascii)

section \<open>White space\<close>

definition is_space :: "nat \<Rightarrow> bool" where
  "is_space r \<longleftrightarrow> (9 \<le> r \<and> r \<le> 13) \<or> r = 0x20 \<or> r = 0x85 \<or> r = 0xA0 \<or> r = 0x1680
     \<or> (0x2000 \<le> r \<and> r \<le> 0x200A) \<or> r = 0x2028 \<or> r = 0x2029 \<or> r = 0x202F \<or> r = 0x205F \<or> r = 0x3000"

definition trim_space :: "string \<Rightarrow> string" where
  "trim_space s = concat (map snd (rev (dropWhile (is_space \<circ> fst) (rev
     (dropWhile (is_space \<circ> fst) (rune_segs s))))))"

text \<open>\<open>strings.Fields\<close>: the maximal runs of runes that are not white space.\<close>

fun fields_of :: "(nat \<times> string) list \<Rightarrow> string \<Rightarrow> string list" where
  "fields_of [] acc = (if acc = [] then [] else [acc])"
| "fields_of ((r, bs) # segs) acc =
     (if is_space r then (if acc = [] then fields_of segs [] else acc # fields_of segs [])
      else fields_of segs (acc @ bs))"

definition Fields :: "string \<Rightarrow> string list" where
  "Fields s = fields_of (rune_segs s) []"

lemma fields_of_no_space:
  "\<forall>(r, bs) \<in> set segs. \<not> is_space r \<and> bs \<noteq> [] \<Longrightarrow> acc \<noteq> [] \<or> segs \<noteq> []
   \<Longrightarrow> fields_of segs acc = [acc @ concat (map snd segs)]"
  by (induction segs acc rule: fields_of.induct) auto

lemma fields_of_not_Nil [simp]: "[] \<notin> set (fields_of segs acc)"
  by (induction segs acc rule: fields_of.induct) simp_all

text \<open>A field has no ASCII white space: such a byte is always a rune of its own.\<close>

lemma second_ok_ge: "second_ok a b \<Longrightarrow> 128 \<le> b"
  by (auto simp: second_ok_def is_cont_def split: if_splits)

lemma is_cont_ge: "is_cont b \<Longrightarrow> 128 \<le> b"
  by (simp add: is_cont_def)

lemma decode_rune_multi_byte:
  assumes "decode_rune (c0 # rest) = (r, w)" "w \<noteq> 1" "c \<in> set (take w (c0 # rest))"
  shows "128 \<le> byte c"
proof -
  define n where "n = seq_len (byte c0)"
  have n: "n \<noteq> 1" "n \<noteq> 0" "n - 1 \<le> length rest"
    and ok: "second_ok (byte c0) (byte (rest ! 0))" "n \<noteq> 2 \<longrightarrow> is_cont (byte (rest ! 1))"
      "n \<noteq> 2 \<and> n \<noteq> 3 \<longrightarrow> is_cont (byte (rest ! 2))" and w: "w = n \<or> n \<noteq> 2 \<and> n \<noteq> 3 \<and> w = 4"
    using assms(1,2) unfolding n_def[symmetric]
    by (auto simp: decode_rune_def Let_def n_def[symmetric] not_less split: if_splits)
  have n_cases: "n = 2 \<or> n = 3 \<or> n = 4" and c0: "128 \<le> byte c0"
    using n(1,2) by (auto simp: n_def seq_len_def split: if_splits)
  from assms(3) have "c = c0 \<or> c \<in> set (take (w - 1) rest)"
    using n_cases w by (cases w) auto
  moreover have "c \<in> set (take (w - 1) rest) \<Longrightarrow> \<exists>i < w - 1. c = rest ! i"
    by (auto simp: in_set_conv_nth)
  moreover have "128 \<le> byte (rest ! i)" if "i < w - 1" for i
  proof -
    have "i = 0 \<or> i = 1 \<and> n \<noteq> 2 \<or> i = 2 \<and> n \<noteq> 2 \<and> n \<noteq> 3"
      using that n_cases w by auto
    then show ?thesis using ok second_ok_ge is_cont_ge by blast
  qed
  ultimately show ?thesis using c0 by blast
qed

lemma decode_rune_ascii_byte:
  assumes "decode_rune s = (r, w)" "c \<in> set (take w s)" "byte c < 128"
  shows "r = byte c"
proof (cases s)
  case (Cons c0 rest)
  have "w = 1" using decode_rune_multi_byte[of c0 rest r w c] assms Cons by force
  with assms Cons have "c = c0" by simp
  with assms Cons show ?thesis by (simp add: decode_rune_ascii)
qed (use assms in simp)

lemma rune_segs_ascii_byte: "(r, bs) \<in> set (rune_segs s) \<Longrightarrow> c \<in> set bs \<Longrightarrow> byte c < 128 \<Longrightarrow> r = byte c"
proof (induction s rule: rune_segs.induct)
  case (1 s)
  show ?case
  proof (cases "s = []")
    case False
    obtain r1 w where d: "decode_rune s = (r1, w)" by (cases "decode_rune s")
    with False have eq: "rune_segs s = (r1, take w s) # rune_segs (drop w s)"
      by (subst rune_segs.simps) simp
    with 1 False d decode_rune_ascii_byte[OF d] show ?thesis by auto
  qed (use 1 in simp)
qed

lemma fields_of_no_ascii_space:
  "f \<in> set (fields_of segs acc) \<Longrightarrow> c \<in> set f \<Longrightarrow>
     \<forall>(r, bs) \<in> set segs. c \<in> set bs \<longrightarrow> \<not> is_space r \<longrightarrow> P \<Longrightarrow> c \<in> set acc \<longrightarrow> P \<Longrightarrow> P"
proof (induction segs acc rule: fields_of.induct)
  case (2 r bs segs acc)
  show ?case
  proof (cases "is_space r")
    case True
    with 2 show ?thesis by (cases "acc = []") auto
  next
    case False
    with 2 show ?thesis by auto
  qed
qed (auto split: if_splits)

lemma Fields_no_ascii_space:
  assumes "f \<in> set (Fields s)" "c \<in> set f" "byte c < 128"
  shows "\<not> is_space (byte c)"
  using assms(1,2) unfolding Fields_def
  by (rule fields_of_no_ascii_space) (use rune_segs_ascii_byte assms(3) in fastforce)+

section \<open>Case\<close>

definition lower_rune :: "unicode_tables \<Rightarrow> nat \<Rightarrow> nat" where
  "lower_rune u r = (if r < 128 then (if 65 \<le> r \<and> r \<le> 90 then r + 32 else r) else uni_lower u r)"

text \<open>
  \<open>strings.ToLower\<close>: every rune is mapped and encoded again, so the length in bytes may change
  outside ASCII, and an invalid byte becomes the three bytes of the replacement rune.
\<close>

definition to_lower :: "unicode_tables \<Rightarrow> string \<Rightarrow> string" where
  "to_lower u s = concat (map (\<lambda>(r, bs). encode_rune (lower_rune u r)) (rune_segs s))"

definition lower_char :: "char \<Rightarrow> char" where
  "lower_char c = (if 65 \<le> byte c \<and> byte c \<le> 90 then char_of (byte c + 32) else c)"

lemma encode_lower_ascii: "byte c < 128 \<Longrightarrow> encode_rune (lower_rune u (byte c)) = [lower_char c]"
  by (auto simp: lower_rune_def lower_char_def encode_rune_ascii)

lemma to_lower_ascii:
  assumes "ascii_string s"
  shows "to_lower u s = map lower_char s"
proof -
  have "concat (map (\<lambda>c. encode_rune (lower_rune u (byte c))) s) = map lower_char s"
    using assms by (induction s) (auto simp: encode_lower_ascii)
  with assms show ?thesis by (simp add: to_lower_def rune_segs_ascii_string comp_def)
qed

lemma to_lower_ascii_length: "ascii_string s \<Longrightarrow> length (to_lower u s) = length s"
  by (simp add: to_lower_ascii)

lemma to_lower_eq_Nil [simp]: "to_lower u s = [] \<longleftrightarrow> s = []"
  by (cases "rune_segs s") (auto simp: to_lower_def split: prod.splits)

text \<open>\<open>strings.EqualFold\<close>: rune by rune, equal or in the same case-folding orbit.\<close>

definition same_fold_rune :: "unicode_tables \<Rightarrow> nat \<Rightarrow> nat \<Rightarrow> bool" where
  "same_fold_rune u a b \<longleftrightarrow> a = b \<or>
     (if a < 128 \<and> b < 128 then lower_rune u a = lower_rune u b else uni_same_fold u a b)"

definition equal_fold :: "unicode_tables \<Rightarrow> string \<Rightarrow> string \<Rightarrow> bool" where
  "equal_fold u s t \<longleftrightarrow> list_all2 (same_fold_rune u) (map fst (rune_segs s)) (map fst (rune_segs t))"

lemma equal_fold_refl [simp]: "equal_fold u s s"
  by (simp add: equal_fold_def same_fold_rune_def list.rel_refl)

lemma equal_fold_ascii:
  assumes "ascii_string s" "ascii_string t"
  shows "equal_fold u s t \<longleftrightarrow> map lower_char s = map lower_char t"
proof -
  have *: "same_fold_rune u (byte a) (byte b) \<longleftrightarrow> lower_char a = lower_char b"
    if "byte a < 128" "byte b < 128" for a b :: char
    using that by (auto simp: same_fold_rune_def lower_rune_def lower_char_def)
      (metis char_of_char of_char_of)+
  have "list_all2 (same_fold_rune u) (map of_char s) (map of_char t) \<longleftrightarrow>
      list_all2 (\<lambda>a b. lower_char a = lower_char b) s t"
    unfolding list_all2_map1 list_all2_map2
    using assms by (intro list.rel_cong refl) (auto simp: ascii_string_def *)
  then show ?thesis
    using assms
    by (simp add: equal_fold_def rune_segs_ascii_string comp_def list_all2_conv_all_nth
        list_eq_iff_nth_eq conj_commute cong: conj_cong)
qed

section \<open>Searching and replacing\<close>

definition has_prefix :: "string \<Rightarrow> string \<Rightarrow> bool" where
  "has_prefix p s \<longleftrightarrow> take (length p) s = p"

fun index_of :: "string \<Rightarrow> string \<Rightarrow> nat option" where
  "index_of needle [] = (if needle = [] then Some 0 else None)"
| "index_of needle (c # s) =
     (if has_prefix needle (c # s) then Some 0 else map_option Suc (index_of needle s))"

lemma has_prefix_Nil_iff [simp]: "has_prefix p [] \<longleftrightarrow> p = []" "has_prefix [] s"
  by (auto simp: has_prefix_def)

lemma has_prefix_length: "has_prefix p s \<Longrightarrow> length p \<le> length s"
  by (metis has_prefix_def length_take min.cobounded2 min.commute min_def nat_le_linear)

lemma index_of_Some:
  "index_of needle s = Some i \<Longrightarrow> has_prefix needle (drop i s) \<and> i + length needle \<le> length s"
  by (induction needle s arbitrary: i rule: index_of.induct)
     (auto split: if_splits dest: has_prefix_length)

lemma index_of_None:
  "index_of needle s = None \<Longrightarrow> i \<le> length s \<Longrightarrow> \<not> has_prefix needle (drop i s)"
  by (induction needle s arbitrary: i rule: index_of.induct)
     (auto split: if_splits simp: drop_Cons')

lemma index_of_first:
  "index_of needle s = Some i \<Longrightarrow> j < i \<Longrightarrow> \<not> has_prefix needle (drop j s)"
  by (induction needle s arbitrary: i j rule: index_of.induct)
     (auto split: if_splits simp: drop_Cons')

text \<open>\<open>strings.ReplaceAll\<close> of a one-byte pattern, the only kind but \<open>~0\<close> and \<open>~1\<close>.\<close>

definition replace_char :: "char \<Rightarrow> string \<Rightarrow> string \<Rightarrow> string" where
  "replace_char c new s = concat (map (\<lambda>x. if x = c then new else [x]) s)"

lemma replace_char_simps [simp]:
  "replace_char c new [] = []"
  "replace_char c new (x # s) = (if x = c then new else [x]) @ replace_char c new s"
  by (simp_all add: replace_char_def)

text \<open>\<open>strings.ReplaceAll\<close> of a two-byte pattern, left to right without overlap.\<close>

fun replace_pair :: "char \<Rightarrow> char \<Rightarrow> string \<Rightarrow> string \<Rightarrow> string" where
  "replace_pair a b new (x # y # s) =
     (if x = a \<and> y = b then new @ replace_pair a b new s else x # replace_pair a b new (y # s))"
| "replace_pair a b new s = s"

text \<open>\<open>strings.Split\<close> by a one-byte separator; never empty.\<close>

fun split_on :: "char \<Rightarrow> string \<Rightarrow> string list" where
  "split_on c [] = [[]]"
| "split_on c (x # s) = (if x = c then [] # split_on c s
     else case split_on c s of p # ps \<Rightarrow> (x # p) # ps | [] \<Rightarrow> [[x]])"

section \<open>Quoting: the \<open>%q\<close> verb\<close>

definition hex_char :: "nat \<Rightarrow> char" where
  "hex_char d = (if d < 10 then char_of (48 + d) else char_of (87 + d))"

fun hex_digits :: "nat \<Rightarrow> nat \<Rightarrow> string" where
  "hex_digits 0 n = []"
| "hex_digits (Suc k) n = hex_digits k (n div 16) @ [hex_char (n mod 16)]"

text \<open>\<open>hex.EncodeToString\<close>\<close>

definition hex_encode :: "string \<Rightarrow> string" where
  "hex_encode s = concat (map (\<lambda>c. hex_digits 2 (byte c)) s)"

definition is_print :: "unicode_tables \<Rightarrow> nat \<Rightarrow> bool" where
  "is_print u r \<longleftrightarrow> (if r < 128 then 32 \<le> r \<and> r < 127 else uni_print u r)"

definition quote_seg :: "unicode_tables \<Rightarrow> nat \<times> string \<Rightarrow> string" where
  "quote_seg u sg = (let (r, bs) = sg in
     if r = rune_error \<and> length bs = 1 then CHR 0x5C # CHR ''x'' # hex_digits 2 (byte (hd bs))
     else if r = 34 \<or> r = 0x5C then [CHR 0x5C, char_of r]
     else if is_print u r then encode_rune r
     else if r = 7 then [CHR 0x5C, CHR ''a'']
     else if r = 8 then [CHR 0x5C, CHR ''b'']
     else if r = 12 then [CHR 0x5C, CHR ''f'']
     else if r = 10 then [CHR 0x5C, CHR ''n'']
     else if r = 13 then [CHR 0x5C, CHR ''r'']
     else if r = 9 then [CHR 0x5C, CHR ''t'']
     else if r = 11 then [CHR 0x5C, CHR ''v'']
     else if r < 32 \<or> r = 127 then CHR 0x5C # CHR ''x'' # hex_digits 2 r
     else if r < 0x10000 then CHR 0x5C # CHR ''u'' # hex_digits 4 r
     else CHR 0x5C # CHR ''U'' # hex_digits 8 r)"

definition quote :: "unicode_tables \<Rightarrow> string \<Rightarrow> string" where
  "quote u s = CHR 0x22 # concat (map (quote_seg u) (rune_segs s)) @ [CHR 0x22]"

text \<open>Evaluation of the decoder and of case mapping on literals.\<close>

lemmas utf8_eval = rune_segs_Cons decode_rune_def seq_len_def second_ok_def is_cont_def Let_def

lemmas lower_eval = to_lower_def utf8_eval lower_rune_def encode_rune_def char_eval

end
