(* ===== verification/GR_Spans.thy ===== *)
theory GR_Spans
  imports GR_Strings
begin

text \<open>
  The interface between the detectors and what finds their matches. A span is a pair of byte
  offsets; a finder returns spans in increasing order that do not overlap and stay within the text
  they index (\<open>spans_ok\<close>). The locale \<open>span_finder\<close> states that contract; regular expressions
  and keyword matching interpret it.
\<close>

type_synonym span = "int \<times> int"

fun spans_from :: "int \<Rightarrow> int \<Rightarrow> span list \<Rightarrow> bool" where
  "spans_from lo n [] = True"
| "spans_from lo n ((s, e) # rest) = (lo \<le> s \<and> s \<le> e \<and> e \<le> n \<and> spans_from e n rest)"

definition spans_ok :: "int \<Rightarrow> span list \<Rightarrow> bool" where [wf_defs]:
  "spans_ok n spans = spans_from 0 n spans"

lemma spans_from_mono: "spans_from lo n spans \<Longrightarrow> lo' \<le> lo \<Longrightarrow> spans_from lo' n spans"
  by (cases spans) auto

lemma spans_from_bounds: "spans_from lo n spans \<Longrightarrow> (s, e) \<in> set spans \<Longrightarrow> lo \<le> s \<and> s \<le> e \<and> e \<le> n"
proof (induction spans arbitrary: lo)
  case (Cons x spans)
  then show ?case by (cases x) fastforce
qed simp

lemma spans_from_disjoint:
  "spans_from lo n spans \<Longrightarrow> i < j \<Longrightarrow> j < length spans \<Longrightarrow> snd (spans ! i) \<le> fst (spans ! j)"
proof (induction spans arbitrary: lo i j)
  case (Cons x spans)
  obtain s e where x: "x = (s, e)" by (cases x)
  obtain j' where j: "j = Suc j'" using Cons.prems(2) by (cases j) auto
  show ?case
  proof (cases i)
    case 0
    with Cons.prems j x spans_from_bounds[of e n spans "fst (spans ! j')" "snd (spans ! j')"]
    show ?thesis by auto
  next
    case (Suc i')
    with Cons j x show ?thesis by auto
  qed
qed simp

locale span_finder =
  fixes find_spans :: "string \<Rightarrow> span list"
    and extent :: "string \<Rightarrow> nat"
  assumes find_ok: "spans_ok (int (extent s)) (find_spans s)"
begin

lemma in_bounds: "(a, b) \<in> set (find_spans s) \<Longrightarrow> 0 \<le> a \<and> a \<le> b \<and> b \<le> int (extent s)"
  using find_ok[of s] spans_from_bounds unfolding spans_ok_def by blast

lemma disjoint: "i < j \<Longrightarrow> j < length (find_spans s) \<Longrightarrow> snd (find_spans s ! i) \<le> fst (find_spans s ! j)"
  using find_ok[of s] spans_from_disjoint unfolding spans_ok_def by blast

end

end
