(* ===== verification/GR_Regexp.thy ===== *)
theory GR_Regexp
  imports GR_Spans
begin

text \<open>
  The matching of Go's \<open>regexp\<close> package, on which the regex detectors and the secret patterns
  rest. The syntax tree covers the operators of \<open>regexp/syntax\<close>; parsing a user's pattern into it
  (\<open>regexp.Compile\<close>) is an argument of the policy compiler. Matching is leftmost-first: a state
  lists the ways an expression can match from it, the preferred one first, and the match taken is
  the first way from the leftmost start. Capture group 1, the only one the program reads, is kept.
\<close>

section \<open>Expressions\<close>

datatype regex =
    RNone
  | REmpty
  | RClass "(nat \<times> nat) list"
  | RNotClass "(nat \<times> nat) list"
  | RBeginText
  | REndText
  | RBeginLine
  | REndLine
  | RWordBoundary
  | RNoWordBoundary
  | RSeq regex regex
  | RAlt regex regex
  | RRep bool nat "nat option" regex \<comment> \<open>greedy, at least, at most\<close>
  | RGroup regex

text \<open>A matching state: the position and the span of group 1.\<close>

type_synonym mstate = "nat \<times> (nat \<times> nat) option"

definition in_class :: "(nat \<times> nat) list \<Rightarrow> nat \<Rightarrow> bool" where
  "in_class cls r \<longleftrightarrow> (\<exists>(lo, hi) \<in> set cls. lo \<le> r \<and> r \<le> hi)"

definition is_word_byte :: "char \<Rightarrow> bool" where
  "is_word_byte c \<longleftrightarrow> in_class [(48, 57), (65, 90), (95, 95), (97, 122)] (byte c)"

definition at_word_boundary :: "string \<Rightarrow> nat \<Rightarrow> bool" where
  "at_word_boundary s i \<longleftrightarrow>
     (0 < i \<and> is_word_byte (s ! (i - 1))) \<noteq> (i < length s \<and> is_word_byte (s ! i))"

definition match_rune :: "string \<Rightarrow> (nat \<Rightarrow> bool) \<Rightarrow> mstate \<Rightarrow> mstate list" where
  "match_rune s ok st = (if fst st < length s then
       (let (r, w) = decode_rune (drop (fst st) s) in if ok r then [(fst st + w, snd st)] else [])
     else [])"

definition assert_at :: "bool \<Rightarrow> mstate \<Rightarrow> mstate list" where
  "assert_at ok st = (if ok then [st] else [])"

text \<open>
  Repetition of a step. An optional iteration that consumes nothing is not repeated: it goes on
  from where it stands.
\<close>

function rep_states :: "nat \<Rightarrow> (mstate \<Rightarrow> mstate list) \<Rightarrow> bool \<Rightarrow> nat \<Rightarrow> nat option \<Rightarrow> mstate \<Rightarrow> mstate list" where
  "rep_states N step greedy mn mx st =
     (if 0 < mn then concat (map (\<lambda>st'. rep_states N step greedy (mn - 1) (map_option (\<lambda>k. k - 1) mx) st') (step st))
      else if mx = Some 0 then [st]
      else let more = concat (map (\<lambda>st'. if fst st < fst st' \<and> fst st' \<le> N
                 then rep_states N step greedy 0 (map_option (\<lambda>k. k - 1) mx) st' else [st']) (step st)) in
        if greedy then more @ [st] else st # more)"
  by pat_completeness auto
termination
  by (relation "measures [\<lambda>(N, step, g, mn, mx, st). mn, \<lambda>(N, step, g, mn, mx, st). N - fst st]") auto

declare rep_states.simps [simp del]

fun match_states :: "string \<Rightarrow> regex \<Rightarrow> mstate \<Rightarrow> mstate list" where
  "match_states s RNone st = []"
| "match_states s REmpty st = [st]"
| "match_states s (RClass cls) st = match_rune s (in_class cls) st"
| "match_states s (RNotClass cls) st = match_rune s (\<lambda>r. \<not> in_class cls r) st"
| "match_states s RBeginText st = assert_at (fst st = 0) st"
| "match_states s REndText st = assert_at (fst st = length s) st"
| "match_states s RBeginLine st = assert_at (fst st = 0 \<or> s ! (fst st - 1) = CHR 0x0A) st"
| "match_states s REndLine st = assert_at (fst st = length s \<or> s ! fst st = CHR 0x0A) st"
| "match_states s RWordBoundary st = assert_at (at_word_boundary s (fst st)) st"
| "match_states s RNoWordBoundary st = assert_at (\<not> at_word_boundary s (fst st)) st"
| "match_states s (RSeq a b) st = concat (map (match_states s b) (match_states s a st))"
| "match_states s (RAlt a b) st = match_states s a st @ match_states s b st"
| "match_states s (RRep greedy mn mx a) st = rep_states (length s) (match_states s a) greedy mn mx st"
| "match_states s (RGroup a) st = map (\<lambda>st'. (fst st', Some (fst st, fst st'))) (match_states s a st)"

section \<open>Where a match can end\<close>

definition advances :: "nat \<Rightarrow> (mstate \<Rightarrow> mstate list) \<Rightarrow> bool" where
  "advances N step \<longleftrightarrow> (\<forall>st st'. fst st \<le> N \<longrightarrow> st' \<in> set (step st) \<longrightarrow> fst st \<le> fst st' \<and> fst st' \<le> N)"

lemma advancesD: "advances N step \<Longrightarrow> fst st \<le> N \<Longrightarrow> st' \<in> set (step st) \<Longrightarrow> fst st \<le> fst st' \<and> fst st' \<le> N"
  unfolding advances_def by blast

lemma match_rune_advances: "advances (length s) (match_rune s ok)"
  unfolding advances_def
proof (intro allI impI)
  fix st st' :: mstate
  assume le: "fst st \<le> length s" and st': "st' \<in> set (match_rune s ok st)"
  then have lt: "fst st < length s" and eq: "fst st' = fst st + snd (decode_rune (drop (fst st) s))"
    by (auto simp: match_rune_def case_prod_beta split: if_splits)
  from lt have "snd (decode_rune (drop (fst st) s)) \<le> length (drop (fst st) s)"
    by (intro conjunct2[OF decode_rune_width]) simp
  with lt eq show "fst st \<le> fst st' \<and> fst st' \<le> length s" by simp
qed

lemma assert_advances: "advances N (\<lambda>st. assert_at (ok st) st)"
  by (auto simp: advances_def assert_at_def)

lemma set_rep_states_pos:
  "0 < mn \<Longrightarrow> set (rep_states N step g mn mx st) =
     (\<Union>st1 \<in> set (step st). set (rep_states N step g (mn - 1) (map_option (\<lambda>k. k - 1) mx) st1))"
  by (subst rep_states.simps) simp

lemma set_rep_states_zero:
  "set (rep_states N step g 0 mx st) = insert st (if mx = Some 0 then {} else
     (\<Union>st1 \<in> set (step st). if fst st < fst st1 \<and> fst st1 \<le> N
        then set (rep_states N step g 0 (map_option (\<lambda>k. k - 1) mx) st1) else {st1}))"
  by (subst rep_states.simps) (simp add: Let_def if_distrib[of set] cong: if_cong)

lemma rep_states_advances:
  assumes "advances N step"
  shows "fst st \<le> N \<Longrightarrow> st' \<in> set (rep_states N step g mn mx st) \<Longrightarrow> fst st \<le> fst st' \<and> fst st' \<le> N"
  using assms
proof (induction N step g mn mx st arbitrary: st' rule: rep_states.induct)
  case (1 N step g mn mx st)
  show ?case
  proof (cases "0 < mn")
    case True
    with "1.prems"(2) obtain st1 where st1: "st1 \<in> set (step st)"
      and st': "st' \<in> set (rep_states N step g (mn - 1) (map_option (\<lambda>k. k - 1) mx) st1)"
      by (auto simp: set_rep_states_pos)
    from advancesD[OF "1.prems"(3,1) st1] "1.IH"(1)[OF True st1 _ st' "1.prems"(3)]
    show ?thesis by auto
  next
    case False
    then have mn: "mn = 0" by simp
    consider "st' = st" | "st' \<in> set (step st)"
      | st1 where "st1 \<in> set (step st)" "mx \<noteq> Some 0" "fst st < fst st1 \<and> fst st1 \<le> N"
        "st' \<in> set (rep_states N step g 0 (map_option (\<lambda>k. k - 1) mx) st1)"
      using "1.prems"(2) unfolding mn set_rep_states_zero[of N step g mx st] by (auto split: if_splits)
    then show ?thesis
    proof cases
      case (3 st1)
      then show ?thesis using "1.IH"(2)[OF False 3(2,1,3) _ 3(4) "1.prems"(3)] by auto
    qed (use "1.prems" advancesD in blast)+
  qed
qed

lemma concat_advances:
  assumes "advances N f" "advances N g"
  shows "advances N (\<lambda>st. concat (map g (f st)))"
  unfolding advances_def
proof (intro allI impI)
  fix st st' :: mstate
  assume le: "fst st \<le> N" and "st' \<in> set (concat (map g (f st)))"
  then obtain st1 where "st1 \<in> set (f st)" "st' \<in> set (g st1)" by auto
  with advancesD[OF assms(1) le] advancesD[OF assms(2), of st1 st']
  show "fst st \<le> fst st' \<and> fst st' \<le> N" by fastforce
qed

lemma match_states_advances: "advances (length s) (match_states s re)"
proof (induction re)
  case (RSeq a b)
  then show ?case using concat_advances by simp
next
  case (RRep g mn mx a)
  show ?case
    unfolding advances_def match_states.simps
    by (intro allI impI) (rule rep_states_advances[OF RRep.IH])
next
  case (RGroup a)
  show ?case
    unfolding advances_def
  proof (intro allI impI)
    fix st st' :: mstate
    assume "fst st \<le> length s" and "st' \<in> set (match_states s (RGroup a) st)"
    moreover from this obtain st1 where "st1 \<in> set (match_states s a st)" "fst st' = fst st1"
      by (auto simp del: match_states.simps simp: match_states.simps(14))
    ultimately show "fst st \<le> fst st' \<and> fst st' \<le> length s"
      using advancesD[OF RGroup.IH] by metis
  qed
next
  case (RAlt a b)
  then show ?case unfolding advances_def match_states.simps set_append by blast
next
  case (RClass x)
  then show ?case using match_rune_advances by simp
next
  case (RNotClass x)
  then show ?case using match_rune_advances by simp
qed (auto simp: advances_def assert_at_def)

section \<open>Finding all matches\<close>

function find_from :: "string \<Rightarrow> regex \<Rightarrow> nat \<Rightarrow> (nat \<times> mstate) option" where
  "find_from s re i =
     (if length s < i then None
      else case match_states s re (i, None) of
        m # _ \<Rightarrow> Some (i, m)
      | [] \<Rightarrow> if i = length s then None else find_from s re (i + snd (decode_rune (drop i s))))"
  by pat_completeness auto
termination
proof (relation "measure (\<lambda>(s, re, i). Suc (length s) - i)", goal_cases)
  case (2 s re i)
  then have "1 \<le> snd (decode_rune (drop i s))"
    by (intro conjunct1[OF decode_rune_width]) auto
  with 2 show ?case by simp
qed simp

declare find_from.simps [simp del]

lemma find_from_bounds:
  "find_from s re i = Some (a, m) \<Longrightarrow> i \<le> a \<and> a \<le> fst m \<and> fst m \<le> length s"
proof (induction s re i rule: find_from.induct)
  case (1 s re i)
  show ?case
  proof (cases "match_states s re (i, None)")
    case Nil
    with 1 show ?thesis
      by (subst (asm) (2) find_from.simps) (auto split: if_splits)
  next
    case (Cons m' ms)
    with "1.prems" have "i \<le> length s" "a = i" "m = m'"
      by (subst (asm) find_from.simps, simp split: if_splits)+
    with Cons advancesD[OF match_states_advances, of "(i, None)" s m re]
    show ?thesis by simp
  qed
qed

text \<open>
  \<open>allMatches\<close> with no limit: an empty match right after the previous match is dropped, and the
  search resumes after the match, or one rune later if it was empty at the search position.
\<close>

function all_matches :: "string \<Rightarrow> regex \<Rightarrow> nat \<Rightarrow> int \<Rightarrow> (nat \<times> mstate) list" where
  "all_matches s re pos prev =
     (if length s < pos then []
      else case find_from s re pos of None \<Rightarrow> []
      | Some (a, m) \<Rightarrow>
          let accept = \<not> (fst m = pos \<and> int a = prev);
              next_pos = (if fst m = pos
                then (if pos < length s then pos + snd (decode_rune (drop pos s)) else Suc (length s))
                else fst m);
              rest = all_matches s re next_pos (int (fst m)) in
          if accept then (a, m) # rest else rest)"
  by pat_completeness auto
termination
proof (relation "measure (\<lambda>(s, re, pos, prev). Suc (length s) - pos)", goal_cases)
  case (2 s re pos prev am a m accept next_pos)
  then have "find_from s re pos = Some (a, m)" by simp
  then have b: "pos \<le> a" "a \<le> fst m" "fst m \<le> length s" by (auto dest: find_from_bounds)
  have w: "pos < length s \<Longrightarrow> 1 \<le> snd (decode_rune (drop pos s))"
    by (intro conjunct1[OF decode_rune_width]) auto
  from b w 2(5) have "pos < next_pos"
    by (cases "fst m = pos"; cases "pos < length s") auto
  with 2(1) b show ?case by simp
qed simp

declare all_matches.simps [simp del]

definition FindAllStringIndex :: "regex \<Rightarrow> string \<Rightarrow> span list" where
  "FindAllStringIndex re s = map (\<lambda>(a, m). (int a, int (fst m))) (all_matches s re 0 (-1))"

text \<open>The span of group 1 for each match; \<open>(-1, -1)\<close> where the group took no part.\<close>

definition FindAllGroupIndex :: "regex \<Rightarrow> string \<Rightarrow> span list" where
  "FindAllGroupIndex re s = map (\<lambda>(a, m). case snd m of None \<Rightarrow> (-1, -1) | Some (x, y) \<Rightarrow> (int x, int y))
     (all_matches s re 0 (-1))"

lemma all_matches_spans:
  "spans_from (int pos) (int (length s)) (map (\<lambda>(a, m). (int a, int (fst m))) (all_matches s re pos prev))"
proof (induction s re pos prev rule: all_matches.induct)
  case (1 s re pos prev)
  show ?case
  proof (cases "length s < pos \<or> find_from s re pos = None")
    case True
    then show ?thesis by (subst all_matches.simps) auto
  next
    case False
    then obtain a m where f: "find_from s re pos = Some (a, m)" and le: "\<not> length s < pos"
      by (metis not_None_eq surj_pair)
    define np where "np = (if fst m = pos
      then (if pos < length s then pos + snd (decode_rune (drop pos s)) else Suc (length s)) else fst m)"
    from find_from_bounds[OF f] have b: "pos \<le> a" "a \<le> fst m" "fst m \<le> length s" by auto
    have IH: "spans_from (int np) (int (length s))
        (map (\<lambda>(a, m). (int a, int (fst m))) (all_matches s re np (int (fst m))))"
      using "1.IH"[OF le f refl refl np_def] by simp
    have "fst m \<le> np" using b by (auto simp: np_def)
    with IH have IH': "spans_from (int k) (int (length s))
        (map (\<lambda>(a, m). (int a, int (fst m))) (all_matches s re np (int (fst m))))" if "k \<le> fst m" for k
      using that by (elim spans_from_mono) simp
    have "all_matches s re pos prev = (if \<not> (fst m = pos \<and> int a = prev)
        then (a, m) # all_matches s re np (int (fst m)) else all_matches s re np (int (fst m)))"
      using f le by (subst all_matches.simps) (simp add: np_def Let_def)
    with b IH' show ?thesis by auto
  qed
qed

interpretation regex_finder: span_finder "FindAllStringIndex re" length for re
  using all_matches_spans[where pos = 0 and prev = "-1"]
  by unfold_locales (simp add: FindAllStringIndex_def spans_ok_def)

end
