(* ===== verification/GR_Policy.thy ===== *)
theory GR_Policy
  imports GR_Config GR_Regexp
begin

text \<open>
  \<open>internal/policy/resolver.go\<close>: compiling the configured policies (\<open>NewResolver\<close>), resolving
  the effective policies of a request (\<open>Resolve\<close>). Keyword matching (\<open>MatchKeyword\<close>) is in \<open>GR_Keywords\<close>.

  \<open>regexp.Compile\<close> and the JSON Schema compiler (with the marshalling of the schema it is given)
  are arguments; a compiled schema is its \<open>Validate\<close> method. The map of compiled policies is an
  association list in the order of insertion.
\<close>

section \<open>Compiled policies\<close>

datatype validation_error =
  ValidationError (ve_instance: string) (ve_keyword: string) (ve_causes: "validation_error list")

datatype validation_result = Valid | Invalid validation_error | OtherError

record compilers =
  compile_regex :: "string \<Rightarrow> (string, regex) result"
  compile_schema :: "string \<Rightarrow> json_object \<Rightarrow> (string, json \<Rightarrow> validation_result) result"

record compiled_detector =
  cd_Config :: detector
  cd_Regex :: "regex option"
  cd_JSONSchema :: "(json \<Rightarrow> validation_result) option"

record compiled_policy =
  cp_Config :: policy
  cp_Detectors :: "compiled_detector list"

record resolver =
  rs_platform :: "string list"
  rs_tenants :: "(string \<times> string list) list"
  rs_policies :: "(string \<times> compiled_policy) list"
  rs_profiles :: "(string \<times> profile) list"

datatype resolver_error =
    MetadataInvalid
  | InvalidAction string action
  | PolicyTimeoutNegative string
  | InvalidFailureMode string failure_mode
  | DetectorIDMissing string
  | NotOneDetectorType string string
  | CannotRedact string string
  | DetectorTimeoutNegative string string
  | DetectorTimeoutExceedsPolicy string string
  | InvalidRegex string string
  | NegativeRequestLimit string
  | NoRequestLimit string
  | UnsupportedSelector string string
  | NoAllowDenyValues string
  | UnsupportedSchemaTarget string string
  | SchemaMissing string
  | InvalidSchema string string
  | NegativeEntropySetting string
  | UnsupportedSecretType string string
  | DuplicatePolicy string
  | UnknownPlatformPolicy string

section \<open>Checks on a detector\<close>

definition countConfigured :: "detector \<Rightarrow> nat" where
  "countConfigured d = length (filter (\<lambda>b. b)
     [det_Regex d \<noteq> None, det_Keywords d \<noteq> None, det_RequestLimits d \<noteq> None,
      det_AllowDeny d \<noteq> None, det_JSONSchema d \<noteq> None, det_Secrets d \<noteq> None])"

definition validateRequestLimits :: "string \<Rightarrow> request_limits \<Rightarrow> (resolver_error, unit) result" where
  "validateRequestLimits ident l =
     (let values = [rl_MaxRequestBytes l, rl_MaxMessages l, rl_MaxMessageBytes l, rl_MaxTools l,
                    rl_MaxAttachments l, rl_MaxEstimatedTokens l] in
      if \<exists>v \<in> set values. v < 0 then Inl (NegativeRequestLimit ident)
      else if rl_AllowedMIMETypes l = [] \<and> (\<forall>v \<in> set values. \<not> 0 < v) then Inl (NoRequestLimit ident)
      else Inr ())"

definition allowDenySelectors :: "string list" where
  "allowDenySelectors = [''target.model'', ''target.provider'', ''target.data_region'',
     ''subject.roles'', ''content.tools'', ''content.domains'', ''content.file_types'']"

definition validateAllowDeny :: "string \<Rightarrow> allow_deny \<Rightarrow> (resolver_error, unit) result" where
  "validateAllowDeny ident l =
     (if ad_Selector l \<notin> set allowDenySelectors then Inl (UnsupportedSelector ident (ad_Selector l))
      else if ad_Allow l = [] \<and> ad_Deny l = [] then Inl (NoAllowDenyValues ident)
      else Inr ())"

definition validateSchemaTarget :: "string \<Rightarrow> string \<Rightarrow> (resolver_error, unit) result" where
  "validateSchemaTarget ident target =
     (if target \<in> set [''content'', ''content.data'', ''metadata'', ''subject'', ''target'']
      then Inr () else Inl (UnsupportedSchemaTarget ident target))"

definition secretTypes :: "string list" where
  "secretTypes = [''pem_private_key'', ''authorization'', ''connection_string'',
     ''known_token'', ''contextual_high_entropy'']"

definition validateSecrets :: "string \<Rightarrow> secrets_config \<Rightarrow> (resolver_error, unit) result" where
  "validateSecrets ident s =
     (if sec_MinEntropy s < 0 \<or> sec_MinEntropyLength s < 0 then Inl (NegativeEntropySetting ident)
      else case find (\<lambda>t. t \<notin> set secretTypes) (sec_Types s) of
        Some t \<Rightarrow> Inl (UnsupportedSecretType ident t)
      | None \<Rightarrow> Inr ())"

section \<open>\<open>NewResolver\<close>\<close>

text \<open>The \<open>switch\<close> over the configured section: what compiling it adds to the detector.\<close>

definition compile_section :: "compilers \<Rightarrow> detector \<Rightarrow> (resolver_error, compiled_detector) result" where
  "compile_section cs d =
     (let cd = \<lparr>cd_Config = d, cd_Regex = None, cd_JSONSchema = None\<rparr>; ident = det_ID d in
      case det_Regex d of Some rx \<Rightarrow>
        (case compile_regex cs (rx_Pattern rx) of Inl e \<Rightarrow> Inl (InvalidRegex ident e)
         | Inr re \<Rightarrow> Inr (cd\<lparr>cd_Regex := Some re\<rparr>))
      | None \<Rightarrow> (case det_RequestLimits d of Some l \<Rightarrow>
        res_bind (validateRequestLimits ident l) (\<lambda>_. Inr cd)
      | None \<Rightarrow> (case det_AllowDeny d of Some l \<Rightarrow>
        res_bind (validateAllowDeny ident l) (\<lambda>_. Inr cd)
      | None \<Rightarrow> (case det_JSONSchema d of Some js \<Rightarrow>
        res_bind (validateSchemaTarget ident (js_Target js)) (\<lambda>_.
          if js_Schema js = [] then Inl (SchemaMissing ident)
          else case compile_schema cs (''urn:thinkpixelgr:detector:'' @ ident) (js_Schema js) of
            Inl e \<Rightarrow> Inl (InvalidSchema ident e)
          | Inr sch \<Rightarrow> Inr (cd\<lparr>cd_JSONSchema := Some sch\<rparr>))
      | None \<Rightarrow> (case det_Secrets d of Some s \<Rightarrow>
        res_bind (validateSecrets ident s) (\<lambda>_. Inr cd)
      | None \<Rightarrow> Inr cd)))))"

text \<open>The body of the loop over a policy's detectors; \<open>p\<close> has its defaults already.\<close>

definition compile_detector :: "compilers \<Rightarrow> policy \<Rightarrow> detector \<Rightarrow> (resolver_error, compiled_detector) result" where
  "compile_detector cs p d =
     (let pid = Policy_CanonicalID p; limit = spec_Timeout (pol_Spec p) in
      if det_ID d = '''' then Inl (DetectorIDMissing pid)
      else if countConfigured d \<noteq> 1 then Inl (NotOneDetectorType (det_ID d) pid)
      else if spec_Action (pol_Spec p) = ActionRedact \<and>
          (det_RequestLimits d \<noteq> None \<or> det_AllowDeny d \<noteq> None \<or> det_JSONSchema d \<noteq> None)
        then Inl (CannotRedact (det_ID d) pid)
      else let d = (if det_Timeout d = 0 then d\<lparr>det_Timeout := limit\<rparr> else d) in
        if det_Timeout d < 0 then Inl (DetectorTimeoutNegative (det_ID d) pid)
        else if det_Timeout d > limit then Inl (DetectorTimeoutExceedsPolicy (det_ID d) pid)
        else compile_section cs d)"

text \<open>The checks and defaults of one policy, before its detectors.\<close>

definition check_policy :: "policy \<Rightarrow> (resolver_error, policy) result" where
  "check_policy p =
     (let ident = Policy_CanonicalID p; spec = pol_Spec p in
      if meta_ID (pol_Metadata p) = '''' \<or> meta_Version (pol_Metadata p) < 1 then Inl MetadataInvalid
      else if spec_Action spec \<noteq> ActionAllow \<and> spec_Action spec \<noteq> ActionBlock \<and>
          spec_Action spec \<noteq> ActionRedact \<and> spec_Action spec \<noteq> ActionMonitor
        then Inl (InvalidAction ident (spec_Action spec))
      else let spec = (if spec_Timeout spec = 0 then spec\<lparr>spec_Timeout := 100 * millisecond\<rparr> else spec) in
        if spec_Timeout spec < 0 then Inl (PolicyTimeoutNegative ident)
        else let spec = (if spec_FailureMode spec = '''' then spec\<lparr>spec_FailureMode := FailureClosed\<rparr> else spec) in
          if \<not> FailureMode_Valid (spec_FailureMode spec) then Inl (InvalidFailureMode ident (spec_FailureMode spec))
          else Inr (p\<lparr>pol_Spec := spec\<rparr>))"

definition compile_policy :: "compilers \<Rightarrow> policy \<Rightarrow> (resolver_error, compiled_policy) result" where
  "compile_policy cs p0 = res_bind (check_policy p0) (\<lambda>p.
     res_bind (res_map (compile_detector cs p) (spec_Detectors (pol_Spec p))) (\<lambda>ds.
       Inr \<lparr>cp_Config = p, cp_Detectors = ds\<rparr>))"

fun compile_policies :: "compilers \<Rightarrow> (string \<times> compiled_policy) list \<Rightarrow> policy list \<Rightarrow>
    (resolver_error, (string \<times> compiled_policy) list) result" where
  "compile_policies cs acc [] = Inr acc"
| "compile_policies cs acc (p # ps) = res_bind (compile_policy cs p) (\<lambda>c.
     let ident = Policy_CanonicalID p in
     if map_of acc ident \<noteq> None then Inl (DuplicatePolicy ident)
     else compile_policies cs (acc @ [(ident, c)]) ps)"

definition collect_profiles :: "profile list \<Rightarrow> (string \<times> profile) list" where
  "collect_profiles ps = fold (\<lambda>p. AList.update (Profile_CanonicalID p) p) ps []"

definition NewResolver :: "compilers \<Rightarrow> config \<Rightarrow> (resolver_error, resolver) result" where
  "NewResolver cs cfg = res_bind (compile_policies cs [] (cfg_Policies cfg)) (\<lambda>policies.
     case find (\<lambda>ident. map_of policies ident = None) (cfg_PlatformMandatory cfg) of
       Some ident \<Rightarrow> Inl (UnknownPlatformPolicy ident)
     | None \<Rightarrow> Inr \<lparr>rs_platform = cfg_PlatformMandatory cfg, rs_tenants = cfg_Tenants cfg,
         rs_policies = policies, rs_profiles = collect_profiles (cfg_Profiles cfg)\<rparr>)"

section \<open>\<open>Resolve\<close>\<close>

datatype resolve_error = UnknownProfile string | UnknownPolicy string

definition supportsStage :: "stage list \<Rightarrow> stage \<Rightarrow> bool" where
  "supportsStage stages s \<longleftrightarrow> s \<in> set stages"

definition cp_supports :: "compiled_policy \<Rightarrow> stage \<Rightarrow> bool" where
  "cp_supports p s \<longleftrightarrow> supportsStage (spec_Stages (pol_Spec (cp_Config p))) s"

fun resolve_ids :: "resolver \<Rightarrow> stage \<Rightarrow> string set \<Rightarrow> string list \<Rightarrow>
    (resolve_error, compiled_policy list) result" where
  "resolve_ids r s seen [] = Inr []"
| "resolve_ids r s seen (ident # ids) =
     (if ident \<in> seen then resolve_ids r s seen ids
      else case map_of (rs_policies r) ident of
        None \<Rightarrow> Inl (UnknownPolicy ident)
      | Some p \<Rightarrow> res_bind (resolve_ids r s (insert ident seen) ids)
          (\<lambda>rest. Inr (if cp_supports p s then p # rest else rest)))"

definition mandatory_ids :: "resolver \<Rightarrow> string \<Rightarrow> string list" where
  "mandatory_ids r tenant = rs_platform r @
     (case map_of (rs_tenants r) tenant of None \<Rightarrow> [] | Some ids \<Rightarrow> ids)"

definition profile_ids :: "resolver \<Rightarrow> string \<Rightarrow> (resolve_error, string list) result" where
  "profile_ids r profile = (if profile = '''' then Inr []
     else case map_of (rs_profiles r) profile of
       None \<Rightarrow> Inl (UnknownProfile profile) | Some p \<Rightarrow> Inr (prof_Policies p))"

definition Resolve :: "resolver \<Rightarrow> string \<Rightarrow> string \<Rightarrow> string list \<Rightarrow> stage \<Rightarrow>
    (resolve_error, compiled_policy list) result" where
  "Resolve r tenant profile selected s = res_bind (profile_ids r profile) (\<lambda>pids.
     resolve_ids r s {} (mandatory_ids r tenant @ pids @ selected))"

definition PolicyIDs :: "resolver \<Rightarrow> string list" where
  "PolicyIDs r = sort (map fst (rs_policies r))"

section \<open>What \<open>NewResolver\<close> guarantees\<close>

definition wf_compiled_detector :: "policy \<Rightarrow> compiled_detector \<Rightarrow> bool" where [wf_defs]:
  "wf_compiled_detector p cd \<longleftrightarrow> (let d = cd_Config cd in
     det_ID d \<noteq> '''' \<and> countConfigured d = 1 \<and>
     0 < det_Timeout d \<and> det_Timeout d \<le> spec_Timeout (pol_Spec p) \<and>
     (spec_Action (pol_Spec p) = ActionRedact \<longrightarrow>
        det_RequestLimits d = None \<and> det_AllowDeny d = None \<and> det_JSONSchema d = None) \<and>
     (cd_Regex cd \<noteq> None \<longleftrightarrow> det_Regex d \<noteq> None) \<and>
     (cd_JSONSchema cd \<noteq> None \<longleftrightarrow> det_JSONSchema d \<noteq> None))"

definition wf_compiled_policy :: "compiled_policy \<Rightarrow> bool" where [wf_defs]:
  "wf_compiled_policy c \<longleftrightarrow> (let p = cp_Config c; spec = pol_Spec p in
     meta_ID (pol_Metadata p) \<noteq> '''' \<and> 1 \<le> meta_Version (pol_Metadata p) \<and>
     spec_Action spec \<in> {ActionAllow, ActionBlock, ActionRedact, ActionMonitor} \<and>
     0 < spec_Timeout spec \<and> FailureMode_Valid (spec_FailureMode spec) \<and>
     list_all (wf_compiled_detector p) (cp_Detectors c))"

definition wf_resolver :: "resolver \<Rightarrow> bool" where [wf_defs]:
  "wf_resolver r \<longleftrightarrow> distinct (map fst (rs_policies r)) \<and>
     list_all (\<lambda>(i, c). i = Policy_CanonicalID (cp_Config c) \<and> wf_compiled_policy c) (rs_policies r) \<and>
     list_all (\<lambda>i. map_of (rs_policies r) i \<noteq> None) (rs_platform r)"

lemma countConfigured_le_1:
  "countConfigured d = 1 \<Longrightarrow> det_Regex d = Some x \<Longrightarrow> det_Keywords d = None \<and> det_RequestLimits d = None \<and>
     det_AllowDeny d = None \<and> det_JSONSchema d = None \<and> det_Secrets d = None"
  "countConfigured d = 1 \<Longrightarrow> det_RequestLimits d \<noteq> None \<Longrightarrow> det_AllowDeny d = None \<and> det_JSONSchema d = None"
  "countConfigured d = 1 \<Longrightarrow> det_AllowDeny d \<noteq> None \<Longrightarrow> det_JSONSchema d = None"
  by (auto simp: countConfigured_def split: if_splits)

lemma countConfigured_Timeout [simp]: "countConfigured (d\<lparr>det_Timeout := t\<rparr>) = countConfigured d"
  by (simp add: countConfigured_def)

lemma compile_section_Config: "compile_section cs d = Inr cd \<Longrightarrow> cd_Config cd = d"
  by (auto simp: compile_section_def Let_def res_bind_Inr_iff split: option.splits sum.splits if_splits)

lemma compile_section_Regex:
  "compile_section cs d = Inr cd \<Longrightarrow> cd_Regex cd \<noteq> None \<longleftrightarrow> det_Regex d \<noteq> None"
  by (auto simp: compile_section_def Let_def res_bind_Inr_iff split: option.splits sum.splits if_splits)

lemma compile_section_JSONSchema:
  "compile_section cs d = Inr cd \<Longrightarrow> countConfigured d = 1 \<Longrightarrow>
     cd_JSONSchema cd \<noteq> None \<longleftrightarrow> det_JSONSchema d \<noteq> None"
  using countConfigured_le_1[of d]
  by (auto simp: compile_section_def Let_def res_bind_Inr_iff split: option.splits sum.splits if_splits)

lemmas compile_section_facts = compile_section_Config compile_section_Regex compile_section_JSONSchema

lemma compile_detector_wf:
  assumes "compile_detector cs p d = Inr cd" and pos: "0 < spec_Timeout (pol_Spec p)"
  shows "wf_compiled_detector p cd"
proof -
  define d' where "d' = (if det_Timeout d = 0 then d\<lparr>det_Timeout := spec_Timeout (pol_Spec p)\<rparr> else d)"
  from assms(1) have sec: "compile_section cs d' = Inr cd" and c: "countConfigured d = 1"
    and t: "0 \<le> det_Timeout d'" "det_Timeout d' \<le> spec_Timeout (pol_Spec p)" and "det_ID d \<noteq> ''''"
    and "\<not> (spec_Action (pol_Spec p) = ActionRedact \<and>
          (det_RequestLimits d \<noteq> None \<or> det_AllowDeny d \<noteq> None \<or> det_JSONSchema d \<noteq> None))"
    by (auto simp: compile_detector_def Let_def d'_def split: if_splits)
  moreover have "det_Timeout d' \<noteq> 0" using pos by (simp add: d'_def)
  moreover from c have "countConfigured d' = 1" by (simp add: d'_def)
  ultimately show ?thesis
    using compile_section_facts[OF sec] by (auto simp: wf_compiled_detector_def Let_def d'_def)
qed

lemma check_policy_facts:
  assumes "check_policy p = Inr p'"
  shows "pol_Metadata p' = pol_Metadata p" "meta_ID (pol_Metadata p') \<noteq> ''''"
    "1 \<le> meta_Version (pol_Metadata p')" "0 < spec_Timeout (pol_Spec p')"
    "spec_Action (pol_Spec p') \<in> {ActionAllow, ActionBlock, ActionRedact, ActionMonitor}"
    "FailureMode_Valid (spec_FailureMode (pol_Spec p'))"
  using assms by (auto simp: check_policy_def Let_def split: if_splits)

lemma compile_policy_wf:
  assumes "compile_policy cs p = Inr c"
  shows "wf_compiled_policy c \<and> Policy_CanonicalID (cp_Config c) = Policy_CanonicalID p"
proof -
  from assms obtain p' ds where p': "check_policy p = Inr p'"
    and ds: "res_map (compile_detector cs p') (spec_Detectors (pol_Spec p')) = Inr ds"
    and c: "c = \<lparr>cp_Config = p', cp_Detectors = ds\<rparr>"
    by (auto simp: compile_policy_def elim!: res_bind_InrE)
  note facts = check_policy_facts[OF p']
  have "list_all (wf_compiled_detector p') ds"
    using res_map_InrD[OF ds] compile_detector_wf facts(4) by (fastforce simp: list_all_iff)
  with facts show ?thesis by (simp add: c wf_compiled_policy_def Let_def Policy_CanonicalID_def)
qed

lemma compile_policies_wf:
  "compile_policies cs acc ps = Inr out \<Longrightarrow> distinct (map fst acc) \<Longrightarrow>
     list_all (\<lambda>(i, c). i = Policy_CanonicalID (cp_Config c) \<and> wf_compiled_policy c) acc \<Longrightarrow>
   distinct (map fst out) \<and>
     list_all (\<lambda>(i, c). i = Policy_CanonicalID (cp_Config c) \<and> wf_compiled_policy c) out"
proof (induction ps arbitrary: acc)
  case (Cons p ps)
  from Cons.prems(1) obtain c where c: "compile_policy cs p = Inr c"
    and fresh: "map_of acc (Policy_CanonicalID p) = None"
    and rest: "compile_policies cs (acc @ [(Policy_CanonicalID p, c)]) ps = Inr out"
    by (auto simp: Let_def elim!: res_bind_InrE split: if_splits)
  from fresh have "Policy_CanonicalID p \<notin> fst ` set acc" by (simp add: map_of_eq_None_iff)
  with Cons.IH[OF rest] Cons.prems(2,3) compile_policy_wf[OF c] show ?case by auto
qed auto

lemma NewResolver_sound:
  assumes "NewResolver cs cfg = Inr r"
  shows "wf_resolver r"
proof -
  from assms obtain policies where c: "compile_policies cs [] (cfg_Policies cfg) = Inr policies"
    and known: "find (\<lambda>i. map_of policies i = None) (cfg_PlatformMandatory cfg) = None"
    and r: "rs_policies r = policies" "rs_platform r = cfg_PlatformMandatory cfg"
    by (auto simp: NewResolver_def elim!: res_bind_InrE split: option.splits)
  from known have "list_all (\<lambda>i. map_of policies i \<noteq> None) (cfg_PlatformMandatory cfg)"
    by (auto simp: find_None_iff list_all_iff)
  with compile_policies_wf[OF c] show ?thesis by (simp add: wf_resolver_def r)
qed

text \<open>Every configured policy is in the resolver, with its stages and its action.\<close>

lemma check_policy_keeps:
  "check_policy p = Inr p' \<Longrightarrow> spec_Stages (pol_Spec p') = spec_Stages (pol_Spec p) \<and> spec_Action (pol_Spec p') = spec_Action (pol_Spec p)"
  by (auto simp: check_policy_def Let_def split: if_splits)

lemma compile_policies_mono:
  "compile_policies cs acc ps = Inr out \<Longrightarrow> map_of acc i = Some c \<Longrightarrow> map_of out i = Some c"
  by (induction ps arbitrary: acc) (auto simp: Let_def map_add_def elim!: res_bind_InrE split: if_splits)

lemma compile_policies_lookup:
  "compile_policies cs acc ps = Inr out \<Longrightarrow> p \<in> set ps \<Longrightarrow>
     \<exists>c. map_of out (Policy_CanonicalID p) = Some c \<and> compile_policy cs p = Inr c"
proof (induction ps arbitrary: acc)
  case (Cons q ps)
  from Cons.prems(1) obtain c where c: "compile_policy cs q = Inr c" "map_of acc (Policy_CanonicalID q) = None"
    and rest: "compile_policies cs (acc @ [(Policy_CanonicalID q, c)]) ps = Inr out"
    by (auto simp: Let_def elim!: res_bind_InrE split: if_splits)
  show ?case
  proof (cases "p = q")
    case True
    have "map_of (acc @ [(Policy_CanonicalID q, c)]) (Policy_CanonicalID q) = Some c" using c(2) by (simp add: map_add_def)
    from compile_policies_mono[OF rest this] c(1) True show ?thesis by blast
  next
    case False
    with Cons.IH[OF rest] Cons.prems(2) show ?thesis by simp
  qed
qed simp

lemma NewResolver_policy:
  assumes "NewResolver cs cfg = Inr r" "p \<in> set (cfg_Policies cfg)"
  obtains c where "map_of (rs_policies r) (Policy_CanonicalID p) = Some c" "spec_Stages (pol_Spec (cp_Config c)) = spec_Stages (pol_Spec p)"
    "spec_Action (pol_Spec (cp_Config c)) = spec_Action (pol_Spec p)"
proof -
  from assms(1) have "compile_policies cs [] (cfg_Policies cfg) = Inr (rs_policies r)"
    by (auto simp: NewResolver_def elim!: res_bind_InrE split: option.splits)
  from compile_policies_lookup[OF this assms(2)] obtain c where
    c: "map_of (rs_policies r) (Policy_CanonicalID p) = Some c" "compile_policy cs p = Inr c" by blast
  then obtain p' where "check_policy p = Inr p'" "cp_Config c = p'" by (auto simp: compile_policy_def elim!: res_bind_InrE)
  with c(1) check_policy_keeps that show thesis by simp
qed

text \<open>
  C19. A resolver that \<open>NewResolver\<close> accepts is well formed: every policy is stored once, under its
  canonical id; its action and failure mode are known ones; its timeout is positive; each of its
  detectors has an id, exactly one section, compiled, and a positive timeout within the policy's; a
  redacting policy has no detector that cannot redact; every platform policy exists.
\<close>

theorem NewResolver_wf:
  assumes "NewResolver cs cfg = Inr r"
  shows "wf_resolver r"
  by (rule NewResolver_sound[OF assms])

lemma NewResolver_platform:
  "NewResolver cs cfg = Inr r \<Longrightarrow> rs_platform r = cfg_PlatformMandatory cfg \<and> rs_tenants r = cfg_Tenants cfg"
  by (auto simp: NewResolver_def elim!: res_bind_InrE split: option.splits)

lemma wf_resolver_lookup:
  "wf_resolver r \<Longrightarrow> map_of (rs_policies r) i = Some c \<Longrightarrow>
     i = Policy_CanonicalID (cp_Config c) \<and> wf_compiled_policy c"
  by (auto simp: wf_resolver_def list_all_iff dest!: map_of_SomeD)

section \<open>What \<open>Resolve\<close> returns\<close>

text \<open>The effective policies, declaratively: the identifiers in order, each once, by stage.\<close>

definition effective_policies :: "resolver \<Rightarrow> stage \<Rightarrow> string list \<Rightarrow> compiled_policy list" where
  "effective_policies r s ids = filter (\<lambda>c. cp_supports c s)
     (map (\<lambda>i. the (map_of (rs_policies r) i)) (remdups_first ids))"

lemma filter_remdups_first_Cons:
  "x \<notin> seen \<Longrightarrow> filter (\<lambda>i. i \<notin> seen) (remdups_first (x # xs)) =
     x # filter (\<lambda>i. i \<notin> insert x seen) (remdups_first xs)"
  by (auto intro!: filter_cong)

lemma filter_remdups_first_seen:
  "x \<in> seen \<Longrightarrow> filter (\<lambda>i. i \<notin> seen) (remdups_first (x # xs)) =
     filter (\<lambda>i. i \<notin> seen) (remdups_first xs)"
  by (auto intro!: filter_cong)

lemma resolve_ids_Inr:
  "resolve_ids r s seen ids = Inr ps \<longleftrightarrow>
     (\<forall>i \<in> set ids - seen. map_of (rs_policies r) i \<noteq> None) \<and>
     ps = filter (\<lambda>c. cp_supports c s) (map (\<lambda>i. the (map_of (rs_policies r) i))
       (filter (\<lambda>i. i \<notin> seen) (remdups_first ids)))"
proof (induction ids arbitrary: seen ps)
  case (Cons i ids)
  show ?case
  proof (cases "i \<in> seen")
    case True
    with Cons show ?thesis by (auto simp: filter_remdups_first_seen simp del: remdups_first.simps)
  next
    case False
    show ?thesis
    proof (cases "map_of (rs_policies r) i")
      case None
      with False show ?thesis by auto
    next
      case (Some c)
      have ids: "(\<forall>j \<in> set (i # ids) - seen. map_of (rs_policies r) j \<noteq> None) \<longleftrightarrow>
          (\<forall>j \<in> set ids - insert i seen. map_of (rs_policies r) j \<noteq> None)"
        using Some by auto
      show ?thesis
        unfolding ids filter_remdups_first_Cons[OF False]
        using False Some by (auto simp: res_bind_Inr_iff Cons.IH)
    qed
  qed
qed auto

text \<open>
  C20. \<open>Resolve\<close> succeeds exactly when the profile and every identifier named by platform, tenant,
  profile and caller are known, and then returns, in that order and each once, the policies that
  apply to the stage.
\<close>

theorem Resolve_spec:
  "Resolve r tenant profile selected s = Inr ps \<longleftrightarrow>
     (\<exists>pids. profile_ids r profile = Inr pids \<and>
        (let ids = mandatory_ids r tenant @ pids @ selected in
         list_all (\<lambda>i. map_of (rs_policies r) i \<noteq> None) ids \<and> ps = effective_policies r s ids))"
  by (auto simp: Resolve_def res_bind_Inr_iff resolve_ids_Inr effective_policies_def list_all_iff Let_def)

text \<open>
  What the caller selects can only add: the policies resolved from the mandatory identifiers
  alone are a prefix of the policies resolved with any profile and any selection.
\<close>

theorem Resolve_mandatory_prefix:
  assumes "Resolve r tenant profile selected s = Inr ps"
  shows "\<exists>mandatory extra. Resolve r tenant '''' [] s = Inr mandatory \<and> ps = mandatory @ extra"
proof -
  from assms obtain pids where
    known: "list_all (\<lambda>i. map_of (rs_policies r) i \<noteq> None) (mandatory_ids r tenant @ pids @ selected)"
    and ps: "ps = effective_policies r s (mandatory_ids r tenant @ pids @ selected)"
    unfolding Resolve_spec Let_def by blast
  have "Resolve r tenant '''' [] s = Inr (effective_policies r s (mandatory_ids r tenant))"
    using known by (simp add: Resolve_spec profile_ids_def)
  then show ?thesis
    by (auto simp: ps effective_policies_def remdups_first_append)
qed

lemma Resolve_sound:
  assumes "wf_resolver r" "Resolve r tenant profile selected s = Inr ps" "c \<in> set ps"
  shows "cp_supports c s \<and> map_of (rs_policies r) (Policy_CanonicalID (cp_Config c)) = Some c"
  using assms wf_resolver_lookup[OF assms(1)]
  by (fastforce simp: Resolve_spec effective_policies_def Let_def list_all_iff)

lemma Resolve_mandatory:
  assumes "Resolve r tenant profile selected s = Inr ps" "i \<in> set (mandatory_ids r tenant)"
  shows "\<exists>c. map_of (rs_policies r) i = Some c \<and> (cp_supports c s \<longrightarrow> c \<in> set ps)"
  using assms by (auto simp: Resolve_spec effective_policies_def Let_def list_all_iff image_iff) force

lemma Resolve_distinct:
  assumes "wf_resolver r" "Resolve r tenant profile selected s = Inr ps"
  shows "distinct (map (Policy_CanonicalID \<circ> cp_Config) ps)"
proof -
  from assms(2) obtain ids where known: "list_all (\<lambda>i. map_of (rs_policies r) i \<noteq> None) ids"
    and ps: "ps = effective_policies r s ids"
    unfolding Resolve_spec Let_def by blast
  let ?look = "\<lambda>i. the (map_of (rs_policies r) i)"
  have "map (Policy_CanonicalID \<circ> cp_Config) (map ?look (remdups_first ids)) = remdups_first ids"
    using known wf_resolver_lookup[OF assms(1)]
    by (intro map_idI[THEN trans[OF map_map]]) (auto simp: list_all_iff)
  then have "distinct (map (Policy_CanonicalID \<circ> cp_Config) (map ?look (remdups_first ids)))"
    by simp
  then show ?thesis unfolding ps effective_policies_def by (rule distinct_map_filter)
qed

section \<open>The resolver as an interface\<close>

text \<open>
  What the evaluator relies on: resolved policies are well formed, apply to the stage, are distinct,
  and include every mandatory policy that applies.
\<close>

locale policy_resolver =
  fixes resolve :: "'r \<Rightarrow> string \<Rightarrow> string \<Rightarrow> string list \<Rightarrow> stage \<Rightarrow> (resolve_error, compiled_policy list) result"
    and lookup :: "'r \<Rightarrow> string \<Rightarrow> compiled_policy option"
    and mandatory :: "'r \<Rightarrow> string \<Rightarrow> string list"
    and invar :: "'r \<Rightarrow> bool"
  assumes sound: "invar r \<Longrightarrow> resolve r t pr sel s = Inr ps \<Longrightarrow> c \<in> set ps \<Longrightarrow>
      cp_supports c s \<and> lookup r (Policy_CanonicalID (cp_Config c)) = Some c"
    and mandatory_applies: "invar r \<Longrightarrow> resolve r t pr sel s = Inr ps \<Longrightarrow> i \<in> set (mandatory r t) \<Longrightarrow>
      \<exists>c. lookup r i = Some c \<and> (cp_supports c s \<longrightarrow> c \<in> set ps)"
    and distinct_ids: "invar r \<Longrightarrow> resolve r t pr sel s = Inr ps \<Longrightarrow>
      distinct (map (Policy_CanonicalID \<circ> cp_Config) ps)"
    and lookup_wf: "invar r \<Longrightarrow> lookup r i = Some c \<Longrightarrow>
      i = Policy_CanonicalID (cp_Config c) \<and> wf_compiled_policy c"
begin

lemma resolved_wf:
  "invar r \<Longrightarrow> resolve r t pr sel s = Inr ps \<Longrightarrow> c \<in> set ps \<Longrightarrow> wf_compiled_policy c"
  using sound lookup_wf by blast

lemma mandatory_id_resolved:
  assumes "invar r" "resolve r t pr sel s = Inr ps" "i \<in> set (mandatory r t)"
    "lookup r i = Some c" "cp_supports c s"
  shows "i \<in> set (map (Policy_CanonicalID \<circ> cp_Config) ps)"
  using mandatory_applies[OF assms(1-3)] lookup_wf[OF assms(1,4)] assms(4,5) by force

end

interpretation policy_res: policy_resolver Resolve "\<lambda>r. map_of (rs_policies r)" mandatory_ids wf_resolver
proof (unfold_locales, goal_cases)
  case (1 r t pr sel s ps c)
  then show ?case by (rule Resolve_sound)
next
  case (2 r t pr sel s ps i)
  from 2(2,3) show ?case by (rule Resolve_mandatory)
next
  case (3 r t pr sel s ps)
  then show ?case by (rule Resolve_distinct)
next
  case (4 r i c)
  then show ?case by (rule wf_resolver_lookup)
qed

section \<open>The shipped policies, compiled\<close>

definition no_compilers :: compilers where
  "no_compilers = \<lparr>compile_regex = (\<lambda>_. Inl ''''), compile_schema = (\<lambda>_ _. Inl '''')\<rparr>"

definition demo_resolver :: resolver where
  "demo_resolver = (case NewResolver no_compilers demo_config of
     Inr r \<Rightarrow> r | Inl _ \<Rightarrow> \<lparr>rs_platform = [], rs_tenants = [], rs_policies = [], rs_profiles = []\<rparr>)"

lemma demo_resolver_eq: "NewResolver no_compilers demo_config = Inr demo_resolver"
proof -
  have "case NewResolver no_compilers demo_config of Inr _ \<Rightarrow> True | Inl _ \<Rightarrow> False"
    by code_simp
  then show ?thesis by (auto simp: demo_resolver_def split: sum.splits)
qed

lemma demo_resolve_ok:
  "\<exists>ps. Resolve demo_resolver ''demo'' ''baseline@1'' [''platform/secrets@1''] StagePreModel = Inr ps \<and> length ps = 3"
proof -
  have "case Resolve demo_resolver ''demo'' ''baseline@1'' [''platform/secrets@1''] StagePreModel of
      Inr ps \<Rightarrow> length ps = 3 | Inl _ \<Rightarrow> False"
    by code_simp
  then show ?thesis by (auto split: sum.splits)
qed

theorem NewResolver_wf_witness: "wf_resolver demo_resolver"
  by (rule NewResolver_wf[OF demo_resolver_eq])

theorem Resolve_mandatory_prefix_witness:
  "\<exists>ps mandatory extra. Resolve demo_resolver ''demo'' ''baseline@1'' [''platform/secrets@1''] StagePreModel = Inr ps \<and>
     Resolve demo_resolver ''demo'' '''' [] StagePreModel = Inr mandatory \<and> ps = mandatory @ extra"
  using demo_resolve_ok Resolve_mandatory_prefix by blast

end
