(* ===== verification/GR_Keywords.thy ===== *)
theory GR_Keywords
  imports GR_Spans
begin

text \<open>
  \<open>MatchKeyword\<close> of \<open>internal/policy/resolver.go\<close>: the non-overlapping occurrences of a keyword,
  from left to right, in the text or in its lower-case form. The lemmas show that every span is an
  occurrence and that no occurrence is missed; offsets are offsets into the string searched, which
  outside ASCII need not be the text itself.
\<close>

section \<open>\<open>MatchKeyword\<close>\<close>

text \<open>
  The loop needs a nonempty needle to advance; \<open>MatchKeyword\<close> calls it with one, since a nonempty
  string is not lowered to an empty one (\<open>to_lower_eq_Nil\<close>).
\<close>

function match_loop :: "string \<Rightarrow> string \<Rightarrow> nat \<Rightarrow> (nat \<times> nat) list" where
  "match_loop haystack needle offset =
     (if needle = [] \<or> length haystack < offset + length needle then []
      else case index_of needle (drop offset haystack) of None \<Rightarrow> []
      | Some i \<Rightarrow> (offset + i, offset + i + length needle) #
          match_loop haystack needle (offset + i + length needle))"
  by pat_completeness auto
termination
  by (relation "measure (\<lambda>(h, n, k). Suc (length h) - k)") (auto simp: neq_Nil_conv)

declare match_loop.simps [simp del]

definition fold_case :: "unicode_tables \<Rightarrow> bool \<Rightarrow> string \<Rightarrow> string" where
  "fold_case u caseSensitive s = (if caseSensitive then s else to_lower u s)"

definition MatchKeyword :: "unicode_tables \<Rightarrow> string \<Rightarrow> string \<Rightarrow> bool \<Rightarrow> span list" where
  "MatchKeyword u value keyword caseSensitive =
     (if keyword = '''' then []
      else map (\<lambda>(a, b). (int a, int b))
        (match_loop (fold_case u caseSensitive value) (fold_case u caseSensitive keyword) 0))"

section \<open>Every span is an occurrence, and every occurrence meets a span\<close>

lemma match_loop_Cons:
  "needle \<noteq> [] \<Longrightarrow> index_of needle (drop k h) = Some i \<Longrightarrow>
     match_loop h needle k = (k + i, k + i + length needle) # match_loop h needle (k + i + length needle)"
  by (subst match_loop.simps) (auto dest: index_of_Some)

lemma match_loop_Nil:
  "needle = [] \<or> index_of needle (drop k h) = None \<Longrightarrow> match_loop h needle k = []"
  by (subst match_loop.simps) auto

lemma match_loop_cases [case_names stop found]:
  obtains "match_loop h needle k = []" "needle = [] \<or> index_of needle (drop k h) = None"
  | i where "needle \<noteq> []" "index_of needle (drop k h) = Some i" "k + i + length needle \<le> length h"
    "match_loop h needle k = (k + i, k + i + length needle) # match_loop h needle (k + i + length needle)"
proof (cases "needle = [] \<or> index_of needle (drop k h) = None")
  case True
  then show ?thesis using that(1) match_loop_Nil by blast
next
  case False
  then obtain i where i: "needle \<noteq> []" "index_of needle (drop k h) = Some i" by auto
  from i index_of_Some[OF i(2)] have "k + i + length needle \<le> length h"
    by (cases "k \<le> length h") auto
  with i that(2) match_loop_Cons show ?thesis by blast
qed

lemma match_loop_occurrence:
  "(a, b) \<in> set (match_loop h needle k) \<Longrightarrow> b = a + length needle \<and> k \<le> a \<and> has_prefix needle (drop a h)"
proof (induction h needle k rule: match_loop.induct)
  case (1 h needle k)
  show ?case
  proof (cases rule: match_loop_cases[where h = h and needle = needle and k = k])
    case (found i)
    with 1 index_of_Some[OF found(2)] show ?thesis by (auto simp: add.commute)
  qed (use 1 in auto)
qed

lemma match_loop_complete:
  "has_prefix needle (drop p h) \<Longrightarrow> needle \<noteq> [] \<Longrightarrow> k \<le> p \<Longrightarrow>
     \<exists>(a, b) \<in> set (match_loop h needle k). a \<le> p \<and> p < b"
proof (induction h needle k rule: match_loop.induct)
  case (1 h needle k)
  have p: "p < length h"
    using has_prefix_length[OF "1.prems"(1)] "1.prems"(2) by (cases needle) auto
  have at: "has_prefix needle (drop (p - k) (drop k h))" using "1.prems" by simp
  show ?case
  proof (cases rule: match_loop_cases[where h = h and needle = needle and k = k])
    case stop
    moreover have "p - k \<le> length (drop k h)" using p by simp
    ultimately show ?thesis
      using index_of_None[of needle "drop k h" "p - k"] at "1.prems"(2) by blast
  next
    case (found i)
    have "k + i \<le> p"
      using index_of_first[OF found(2), of "p - k"] at "1.prems"(3) by force
    show ?thesis
    proof (cases "p < k + i + length needle")
      case True
      with \<open>k + i \<le> p\<close> found show ?thesis by auto
    next
      case False
      with 1 found have "\<exists>(a, b) \<in> set (match_loop h needle (k + i + length needle)). a \<le> p \<and> p < b"
        by simp
      with found show ?thesis by auto
    qed
  qed
qed

lemma match_loop_spans:
  "spans_from (int k) (int (length h)) (map (\<lambda>(a, b). (int a, int b)) (match_loop h needle k))"
proof (induction h needle k rule: match_loop.induct)
  case (1 h needle k)
  show ?case
  proof (cases rule: match_loop_cases[where h = h and needle = needle and k = k])
    case (found i)
    with 1 show ?thesis by simp
  qed simp
qed

interpretation keyword_finder: span_finder "\<lambda>s. MatchKeyword u s keyword cs" "\<lambda>s. length (fold_case u cs s)"
  for u keyword cs
  using match_loop_spans[where k = 0]
  by unfold_locales (auto simp: MatchKeyword_def spans_ok_def)

lemma fold_case_eq_Nil [simp]: "fold_case u cs s = [] \<longleftrightarrow> s = []"
  by (simp add: fold_case_def)

lemma MatchKeyword_sound:
  "(int a, int b) \<in> set (MatchKeyword u v keyword cs) \<Longrightarrow>
     take (b - a) (drop a (fold_case u cs v)) = fold_case u cs keyword"
  by (auto simp: MatchKeyword_def has_prefix_def simp flip: of_nat_add split: if_splits
      dest!: match_loop_occurrence)

lemma MatchKeyword_complete:
  assumes "keyword \<noteq> []" "has_prefix (fold_case u cs keyword) (drop p (fold_case u cs v))"
  shows "\<exists>(a, b) \<in> set (MatchKeyword u v keyword cs). a \<le> int p \<and> int p < b"
  using match_loop_complete[OF assms(2), of 0] assms(1) by (force simp: MatchKeyword_def)

text \<open>
  C23. Keyword matching is exact over the string it searches: every span is an occurrence of the
  keyword, the spans are in order and do not overlap, and every occurrence of a nonempty keyword
  begins inside a span.
\<close>

theorem MatchKeyword_exact:
  "spans_ok (int (length (fold_case u cs v))) (MatchKeyword u v keyword cs) \<and>
    (\<forall>a b. (int a, int b) \<in> set (MatchKeyword u v keyword cs) \<longrightarrow>
       take (b - a) (drop a (fold_case u cs v)) = fold_case u cs keyword) \<and>
    (\<forall>p. keyword \<noteq> [] \<and> has_prefix (fold_case u cs keyword) (drop p (fold_case u cs v)) \<longrightarrow>
       (\<exists>(a, b) \<in> set (MatchKeyword u v keyword cs). a \<le> int p \<and> int p < b))"
  using keyword_finder.find_ok MatchKeyword_sound MatchKeyword_complete by blast

text \<open>In ASCII text the spans index the text itself, and mark the keyword up to case.\<close>

lemma MatchKeyword_ascii:
  assumes "ascii_string v" "ascii_string keyword"
    and mem: "(int a, int b) \<in> set (MatchKeyword u v keyword False)"
  shows "b \<le> length v \<and> equal_fold u (take (b - a) (drop a v)) keyword"
proof -
  have sub: "ascii_string (take (b - a) (drop a v))"
    using assms(1) by (auto simp: ascii_string_def dest!: in_set_takeD in_set_dropD)
  have "take (b - a) (drop a (to_lower u v)) = to_lower u keyword"
    using MatchKeyword_sound[OF mem] by (simp add: fold_case_def)
  then have "map lower_char (take (b - a) (drop a v)) = map lower_char keyword"
    using assms(1,2) by (simp add: to_lower_ascii take_map drop_map)
  then show ?thesis
    using keyword_finder.in_bounds[OF mem] assms sub
    by (simp add: equal_fold_ascii fold_case_def to_lower_ascii)
qed

theorem MatchKeyword_exact_witness:
  "\<exists>(a, b) \<in> set (MatchKeyword ascii_tables ''Please IGNORE this'' ''ignore'' False). a \<le> int 7 \<and> int 7 < b"
proof -
  have "has_prefix (fold_case ascii_tables False ''ignore'')
      (drop 7 (fold_case ascii_tables False ''Please IGNORE this''))"
    by (simp add: fold_case_def has_prefix_def to_lower_ascii lower_char_def char_eval)
  with MatchKeyword_exact[of ascii_tables False "''Please IGNORE this''" "''ignore''"]
  show ?thesis by blast
qed

section \<open>Offsets outside ASCII\<close>

text \<open>\<open>U+023A\<close> takes two bytes in UTF-8; its lower case \<open>U+2C65\<close> takes three.\<close>

definition wide :: string where "wide = [CHR 0xC8, CHR 0xBA]"
definition wide_lowered :: string where "wide_lowered = [CHR 0xE2, CHR 0xB1, CHR 0xA5]"

lemma to_lower_wide:
  assumes "uni_lower u 0x023A = 0x2C65"
  shows "to_lower u (wide @ s) = wide_lowered @ to_lower u s"
  using assms by (simp add: wide_def wide_lowered_def lower_eval)

lemma to_lower_wides:
  assumes "uni_lower u 0x023A = 0x2C65"
  shows "to_lower u (concat (replicate n wide) @ s) = concat (replicate n wide_lowered) @ to_lower u s"
  by (induction n) (simp_all add: to_lower_wide[OF assms])

lemma length_wides: "length (concat (replicate n wide)) = 2 * n" "length (concat (replicate n wide_lowered)) = 3 * n"
  by (simp_all add: length_concat sum_list_replicate wide_def wide_lowered_def)

lemma ascii_not_wide: "byte c < 128 \<Longrightarrow> c \<notin> set (concat (replicate n wide_lowered))"
  by (induction n) (auto simp: wide_lowered_def char_eval)

text \<open>
  C29. A case-insensitive match is a match in the lower-case text: it returns the offsets that an exact
  search for the lower-case keyword in the lower-case text returns, so they index that text. They need
  not index the text itself. Before any ASCII keyword put \<open>n\<close> letters \<open>U+023A\<close>, two bytes each and
  three in lower case: the keyword stands at \<open>2 n\<close>, the one span returned is at \<open>3 n\<close>, and for
  every positive \<open>n\<close> it ends beyond the end of the text.
\<close>

theorem MatchKeyword_lowered_offsets:
  assumes "uni_lower u 0x023A = 0x2C65" "ascii_string keyword" "keyword \<noteq> ''''"
  shows "(\<forall>v. MatchKeyword u v keyword False = MatchKeyword u (to_lower u v) (to_lower u keyword) True) \<and>
    set (MatchKeyword u (concat (replicate n wide) @ keyword) keyword False) = {(int (3 * n), int (3 * n + length keyword))} \<and>
    take (length keyword) (drop (2 * n) (concat (replicate n wide) @ keyword)) = keyword \<and>
    (0 < n \<longrightarrow> length (concat (replicate n wide) @ keyword) < 3 * n + length keyword)"
proof -
  let ?text = "concat (replicate n wide) @ keyword" and ?hay = "concat (replicate n wide_lowered) @ to_lower u keyword"
  let ?len = "length keyword" and ?spans = "MatchKeyword u (concat (replicate n wide) @ keyword) keyword False"
  have lowered: "fold_case u False ?text = ?hay" "fold_case u False keyword = to_lower u keyword"
    using to_lower_wides[OF assms(1)] by (simp_all add: fold_case_def)
  have len: "length (to_lower u keyword) = ?len" "to_lower u keyword \<noteq> []"
    using to_lower_ascii_length[OF assms(2)] assms(3) by simp_all
  have first: "byte (to_lower u keyword ! 0) < 128"
    using assms(2,3) by (cases keyword) (auto simp: to_lower_ascii ascii_string_def lower_char_def)
  have only: "a = 3 * n \<and> b = 3 * n + ?len" if mem: "(int a, int b) \<in> set ?spans" for a b
  proof -
    have found: "take (b - a) (drop a ?hay) = to_lower u keyword" using MatchKeyword_sound[OF mem] lowered by simp
    have bounds: "a \<le> b" "b \<le> length ?hay" using keyword_finder.in_bounds[OF mem] lowered by auto
    have "b - a = ?len" using arg_cong[OF found, of length] bounds len(1) by simp
    moreover have "3 * n \<le> a"
    proof (rule ccontr)
      assume "\<not> 3 * n \<le> a"
      then have "to_lower u keyword ! 0 = concat (replicate n wide_lowered) ! a" "a < length (concat (replicate n wide_lowered))"
        using arg_cong[OF found[symmetric], of "\<lambda>s. s ! 0"] bounds len \<open>b - a = ?len\<close> length_wides(2)[of n] by (simp_all add: nth_append)
      then have "to_lower u keyword ! 0 \<in> set (concat (replicate n wide_lowered))" by (simp only: nth_mem)
      with ascii_not_wide[OF first, of n] show False by blast
    qed
    moreover have "b \<le> 3 * n + ?len" using bounds len(1) length_wides(2)[of n] by simp
    ultimately show ?thesis using bounds(1) by linarith
  qed
  have "has_prefix (fold_case u False keyword) (drop (3 * n) (fold_case u False ?text))"
    using length_wides(2)[of n] by (simp add: lowered has_prefix_def)
  from MatchKeyword_complete[OF assms(3) this] obtain x y where xy: "(x, y) \<in> set ?spans" by blast
  have nat: "\<exists>a b. p = (int a, int b)" if "p \<in> set ?spans" for p
    using that by (auto simp: MatchKeyword_def split: if_splits)
  have "set ?spans = {(int (3 * n), int (3 * n + ?len))}"
    using xy nat only by fastforce
  moreover have "take ?len (drop (2 * n) ?text) = keyword" "length ?text = 2 * n + ?len" using length_wides(1)[of n] by simp_all
  moreover have "MatchKeyword u v keyword False = MatchKeyword u (to_lower u v) (to_lower u keyword) True" for v
    using assms(3) by (simp add: MatchKeyword_def fold_case_def)
  ultimately show ?thesis by simp
qed

theorem MatchKeyword_lowered_offsets_witness:
  "set (MatchKeyword (ascii_tables\<lparr>uni_lower := (\<lambda>r. if r = 0x023A then 0x2C65 else r)\<rparr>) (concat (replicate 4 wide) @ ''key'') ''key'' False) = {(12, 15)}"
proof -
  let ?u = "ascii_tables\<lparr>uni_lower := (\<lambda>r. if r = 0x023A then 0x2C65 else r)\<rparr>"
  have "uni_lower ?u 0x023A = 0x2C65" "ascii_string ''key''" "''key'' \<noteq> ''''" by (simp_all add: ascii_string_def char_eval)
  from MatchKeyword_lowered_offsets[OF this, of 4]
  have "set (MatchKeyword ?u (concat (replicate 4 wide) @ ''key'') ''key'' False) = {(int (3 * 4), int (3 * 4 + length ''key''))}"
    by (elim conjE)
  then show ?thesis by simp
qed

end
