(* ===== verification/GR_Content.thy ===== *)
theory GR_Content
  imports GR_Domain GR_Strings GR_Time
begin

text \<open>
  Walking content, from \<open>internal/engine/evaluator.go\<close>: the paths of text and JSON strings
  (\<open>visitText\<close>, \<open>visitStrings\<close>, \<open>visitJSONStrings\<close>, \<open>childPath\<close>), the structure-preserving map
  over JSON strings (\<open>transformJSONStrings\<close>), the selectors of allow and deny lists, the MIME types
  and the JSON Schema targets, and the path of a JSON pointer (\<open>pointerJSONPath\<close>).

  A visitor callback is the list of the \<open>(path, text)\<close> pairs it is called with, in order. The
  callback of the transformation may fail (a slice out of range), so it returns an option.
\<close>

section \<open>Paths\<close>

definition index_path :: "string \<Rightarrow> nat \<Rightarrow> string" where
  "index_path parent i = parent @ ''['' @ show_nat i @ '']''"

definition is_letter :: "nat \<Rightarrow> bool" where
  "is_letter r \<longleftrightarrow> r = 95 \<or> 97 \<le> r \<and> r \<le> 122 \<or> 65 \<le> r \<and> r \<le> 90"

text \<open>The loop of \<open>childPath\<close> over the runes of the key, with their byte offsets.\<close>

fun simple_key_from :: "nat \<Rightarrow> (nat \<times> string) list \<Rightarrow> bool" where
  "simple_key_from i [] = True"
| "simple_key_from i ((r, bs) # segs) =
     ((is_letter r \<or> 0 < i \<and> 48 \<le> r \<and> r \<le> 57) \<and> simple_key_from (i + length bs) segs)"

definition childPath :: "unicode_tables \<Rightarrow> string \<Rightarrow> string \<Rightarrow> string" where
  "childPath u parent key =
     (if \<not> simple_key_from 0 (rune_segs key) then parent @ ''['' @ quote u key @ '']''
      else if key = '''' then parent @ [CHR ''['', CHR 0x22, CHR 0x22, CHR '']'']
      else parent @ ''.'' @ key)"

section \<open>Visiting strings\<close>

definition message_path :: "nat \<Rightarrow> string" where
  "message_path i = ''content.messages['' @ show_nat i @ ''].content''"

definition visitText :: "content_envelope \<Rightarrow> (string \<times> string) list" where
  "visitText c = (if ce_Text c \<noteq> '''' then [(''content.text'', ce_Text c)] else []) @
     map (\<lambda>(i, m). (message_path i, msg_Content m)) (List.enumerate 0 (ce_Messages c))"

function visitJSONStrings :: "unicode_tables \<Rightarrow> json \<Rightarrow> string \<Rightarrow> (string \<times> string) list" where
  "visitJSONStrings u (JStr s) path = [(path, s)]"
| "visitJSONStrings u (JArr xs) path =
     concat (map (\<lambda>(i, x). visitJSONStrings u x (index_path path i)) (List.enumerate 0 xs))"
| "visitJSONStrings u (JObj kvs) path =
     concat (map (\<lambda>(k, x). visitJSONStrings u x (childPath u path k)) (sort_key fst kvs))"
| "visitJSONStrings u JNull path = []"
| "visitJSONStrings u (JBool b) path = []"
| "visitJSONStrings u (JNum n) path = []"
  by pat_completeness auto
termination
  by (relation "measure (\<lambda>(u, j, p). size j)")
     (auto simp: less_Suc_eq_le in_set_enumerate_eq dest!: nth_mem
       intro!: size_list_estimation' size_list_estimation'[where f = "size_prod (\<lambda>_. 0) size"])

definition data_json :: "json_object option \<Rightarrow> json" where
  "data_json m = (case m of None \<Rightarrow> JNull | Some kvs \<Rightarrow> JObj kvs)"

definition visitStrings :: "unicode_tables \<Rightarrow> content_envelope \<Rightarrow> (string \<times> string) list" where
  "visitStrings u c = visitText c @ visitJSONStrings u (data_json (ce_Data c)) ''content.data''"

section \<open>Transforming strings\<close>

fun opt_map :: "('a \<Rightarrow> 'b option) \<Rightarrow> 'a list \<Rightarrow> 'b list option" where
  "opt_map f [] = Some []"
| "opt_map f (x # xs) = (case f x of None \<Rightarrow> None
     | Some y \<Rightarrow> (case opt_map f xs of None \<Rightarrow> None | Some ys \<Rightarrow> Some (y # ys)))"

lemma opt_map_cong [fundef_cong]:
  "xs = ys \<Longrightarrow> (\<And>x. x \<in> set ys \<Longrightarrow> f x = g x) \<Longrightarrow> opt_map f xs = opt_map g ys"
  by (induction ys arbitrary: xs) (auto split: option.split)

function transformJSONStrings :: "unicode_tables \<Rightarrow> (string \<Rightarrow> string \<Rightarrow> string option) \<Rightarrow> json \<Rightarrow> string \<Rightarrow> json option" where
  "transformJSONStrings u apply (JStr s) path = map_option JStr (apply path s)"
| "transformJSONStrings u apply (JArr xs) path = map_option JArr
     (opt_map (\<lambda>(i, x). transformJSONStrings u apply x (index_path path i)) (List.enumerate 0 xs))"
| "transformJSONStrings u apply (JObj kvs) path = map_option JObj
     (opt_map (\<lambda>(k, x). map_option (Pair k) (transformJSONStrings u apply x (childPath u path k))) kvs)"
| "transformJSONStrings u apply JNull path = Some JNull"
| "transformJSONStrings u apply (JBool b) path = Some (JBool b)"
| "transformJSONStrings u apply (JNum n) path = Some (JNum n)"
  by pat_completeness auto
termination
  by (relation "measure (\<lambda>(u, f, j, p). size j)")
     (auto simp: less_Suc_eq_le in_set_enumerate_eq dest!: nth_mem
       intro!: size_list_estimation' size_list_estimation'[where f = "size_prod (\<lambda>_. 0) size"])

section \<open>Positions in a JSON value\<close>

datatype jstep = Idx nat | Key string

fun json_child :: "json \<Rightarrow> jstep \<Rightarrow> json option" where
  "json_child (JArr xs) (Idx i) = (if i < length xs then Some (xs ! i) else None)"
| "json_child (JObj kvs) (Key k) = map_of kvs k"
| "json_child _ _ = None"

fun json_at :: "json \<Rightarrow> jstep list \<Rightarrow> json option" where
  "json_at j [] = Some j"
| "json_at j (st # sts) = (case json_child j st of None \<Rightarrow> None | Some j' \<Rightarrow> json_at j' sts)"

definition step_path :: "unicode_tables \<Rightarrow> string \<Rightarrow> jstep \<Rightarrow> string" where
  "step_path u base st = (case st of Idx i \<Rightarrow> index_path base i | Key k \<Rightarrow> childPath u base k)"

definition path_to :: "unicode_tables \<Rightarrow> string \<Rightarrow> jstep list \<Rightarrow> string" where
  "path_to u base sts = foldl (step_path u) base sts"

lemma path_to_simps [simp]:
  "path_to u base [] = base" "path_to u base (st # sts) = path_to u (step_path u base st) sts"
  by (simp_all add: path_to_def)

text \<open>The strings visited are the string leaves, each under the path of its position.\<close>

definition string_at :: "unicode_tables \<Rightarrow> json \<Rightarrow> string \<Rightarrow> string \<Rightarrow> string \<Rightarrow> bool" where
  "string_at u j base p s \<longleftrightarrow> (\<exists>sts. json_at j sts = Some (JStr s) \<and> p = path_to u base sts)"

lemma string_at_JStr [simp]: "string_at u (JStr t) base p s \<longleftrightarrow> p = base \<and> s = t"
proof
  assume "string_at u (JStr t) base p s"
  then obtain sts where "json_at (JStr t) sts = Some (JStr s)" "p = path_to u base sts"
    by (auto simp: string_at_def)
  then show "p = base \<and> s = t" by (cases sts) auto
qed (auto simp: string_at_def intro: exI[of _ "[]"])

lemma string_at_children:
  assumes "\<And>t. j \<noteq> JStr t"
  shows "string_at u j base p s \<longleftrightarrow>
    (\<exists>st j'. json_child j st = Some j' \<and> string_at u j' (step_path u base st) p s)"
proof
  assume "string_at u j base p s"
  then obtain sts where sts: "json_at j sts = Some (JStr s)" "p = path_to u base sts"
    by (auto simp: string_at_def)
  with assms obtain st rest where "sts = st # rest" by (cases sts) auto
  with sts show "\<exists>st j'. json_child j st = Some j' \<and> string_at u j' (step_path u base st) p s"
    by (auto simp: string_at_def split: option.splits)
next
  assume "\<exists>st j'. json_child j st = Some j' \<and> string_at u j' (step_path u base st) p s"
  then obtain st j' sts where "json_child j st = Some j'" "json_at j' sts = Some (JStr s)"
    "p = path_to u (step_path u base st) sts" by (auto simp: string_at_def)
  then show "string_at u j base p s" by (auto simp: string_at_def intro!: exI[of _ "st # sts"])
qed

lemma ex_jstep: "(\<exists>st. P st) \<longleftrightarrow> (\<exists>i. P (Idx i)) \<or> (\<exists>k. P (Key k))"
  by (metis jstep.exhaust)

lemma string_at_JArr:
  "string_at u (JArr xs) base p s \<longleftrightarrow> (\<exists>i < length xs. string_at u (xs ! i) (index_path base i) p s)"
  by (subst string_at_children) (auto simp: step_path_def ex_jstep split: if_splits)

lemma string_at_JObj:
  "string_at u (JObj kvs) base p s \<longleftrightarrow> (\<exists>k x. map_of kvs k = Some x \<and> string_at u x (childPath u base k) p s)"
  by (subst string_at_children) (auto simp: step_path_def ex_jstep split: if_splits)

lemma json_child_scalar [simp]:
  "json_child JNull st = None" "json_child (JBool b) st = None" "json_child (JNum n) st = None"
  by (cases st; simp)+

text \<open>
  C27. The paths and texts visited in a JSON value are exactly its string leaves, each under the path
  that \<open>index_path\<close> and \<open>childPath\<close> give its position.
\<close>

theorem visitJSONStrings_leaves:
  "wf_json j \<Longrightarrow> (p, s) \<in> set (visitJSONStrings u j base) \<longleftrightarrow> string_at u j base p s"
proof (induction u j base rule: visitJSONStrings.induct)
  case (2 u xs path)
  have "(p, s) \<in> set (visitJSONStrings u (JArr xs) path) \<longleftrightarrow>
      (\<exists>i < length xs. (p, s) \<in> set (visitJSONStrings u (xs ! i) (index_path path i)))"
    by (auto simp: in_set_enumerate_eq intro!: bexI[of _ "(_, xs ! _)"])
  also have "\<dots> \<longleftrightarrow> (\<exists>i < length xs. string_at u (xs ! i) (index_path path i) p s)"
    using 2 by (auto simp: in_set_enumerate_eq)
  also have "\<dots> \<longleftrightarrow> string_at u (JArr xs) path p s"
    by (simp add: string_at_JArr)
  finally show ?case .
next
  case (3 u kvs path)
  have key: "map_of kvs k = Some x \<longleftrightarrow> (k, x) \<in> set kvs" for k x
    using 3(2) by (intro map_of_eq_Some_iff) simp
  have "(p, s) \<in> set (visitJSONStrings u (JObj kvs) path) \<longleftrightarrow>
      (\<exists>(k, x) \<in> set kvs. (p, s) \<in> set (visitJSONStrings u x (childPath u path k)))"
    by auto
  also have "\<dots> \<longleftrightarrow> (\<exists>(k, x) \<in> set kvs. string_at u x (childPath u path k) p s)"
    using 3 by fastforce
  also have "\<dots> \<longleftrightarrow> string_at u (JObj kvs) path p s"
    by (auto simp: string_at_JObj key)
  finally show ?case .
qed (auto simp: string_at_children)

theorem visitJSONStrings_leaves_witness:
  "string_at ascii_tables (JObj [(''a'', JArr [JNull, JStr ''x''])]) ''content.data'' ''content.data.a[1]'' ''x''"
proof -
  have "(''content.data.a[1]'', ''x'') \<in>
      set (visitJSONStrings ascii_tables (JObj [(''a'', JArr [JNull, JStr ''x''])]) ''content.data'')"
    by (simp add: childPath_def rune_segs_ascii is_letter_def index_path_def show_eval)
  moreover have "wf_json (JObj [(''a'', JArr [JNull, JStr ''x''])])" by simp
  ultimately show ?thesis by (blast intro: visitJSONStrings_leaves[THEN iffD1])
qed

section \<open>The transformation, position by position\<close>

lemma opt_map_list_all2: "opt_map f xs = Some ys \<Longrightarrow> list_all2 (\<lambda>x y. f x = Some y) xs ys"
  by (induction xs arbitrary: ys) (auto split: option.splits)

lemma opt_map_keyed:
  assumes "opt_map (\<lambda>(k, x). map_option (Pair k) (g k x)) kvs = Some kvs'"
  shows "map fst kvs' = map fst kvs"
    and "map_of kvs k = Some x \<Longrightarrow> \<exists>x'. map_of kvs' k = Some x' \<and> g k x = Some x'"
    and "map_of kvs k = None \<Longrightarrow> map_of kvs' k = None"
  using assms by (induction kvs arbitrary: kvs') (auto split: option.splits if_splits)

lemma transform_child:
  assumes "transformJSONStrings u f j base = Some j'"
  shows "json_child j st = Some x \<Longrightarrow>
      \<exists>x'. json_child j' st = Some x' \<and> transformJSONStrings u f x (step_path u base st) = Some x'"
    and "json_child j st = None \<Longrightarrow> json_child j' st = None"
proof -
  have *: "(json_child j st = Some x \<longrightarrow>
        (\<exists>x'. json_child j' st = Some x' \<and> transformJSONStrings u f x (step_path u base st) = Some x'))
      \<and> (json_child j st = None \<longrightarrow> json_child j' st = None)"
  proof (cases j)
    case (JArr xs)
    with assms obtain ys where ys: "j' = JArr ys"
      "opt_map (\<lambda>(i, x). transformJSONStrings u f x (index_path base i)) (List.enumerate 0 xs) = Some ys" by auto
    from opt_map_list_all2[OF ys(2)] have "length ys = length xs"
      "\<And>i. i < length xs \<Longrightarrow> transformJSONStrings u f (xs ! i) (index_path base i) = Some (ys ! i)"
      by (auto simp: list_all2_conv_all_nth nth_enumerate_eq)
    with JArr ys(1) show ?thesis by (cases st) (auto simp: step_path_def)
  next
    case (JObj kvs)
    with assms obtain kvs' where kvs': "j' = JObj kvs'"
      "opt_map (\<lambda>(k, x). map_option (Pair k) (transformJSONStrings u f x (childPath u base k))) kvs = Some kvs'" by auto
    from JObj kvs'(1) opt_map_keyed(2,3)[OF kvs'(2)] show ?thesis
      by (cases st) (auto simp: step_path_def)
  qed (use assms in auto)
  show "json_child j st = Some x \<Longrightarrow>
      \<exists>x'. json_child j' st = Some x' \<and> transformJSONStrings u f x (step_path u base st) = Some x'"
    and "json_child j st = None \<Longrightarrow> json_child j' st = None" using * by auto
qed

lemma transform_at:
  assumes "transformJSONStrings u f j base = Some j'"
  shows "json_at j sts = Some x \<Longrightarrow>
      \<exists>x'. json_at j' sts = Some x' \<and> transformJSONStrings u f x (path_to u base sts) = Some x'"
    and "json_at j sts = None \<Longrightarrow> json_at j' sts = None"
  using assms
proof (induction sts arbitrary: j j' base)
  case (Cons st sts)
  {
    case 1
    then obtain y where y: "json_child j st = Some y" "json_at y sts = Some x" by (auto split: option.splits)
    from transform_child(1)[OF 1(2) y(1)] obtain y' where
      "json_child j' st = Some y'" "transformJSONStrings u f y (step_path u base st) = Some y'" by blast
    with Cons.IH(1)[OF y(2)] show ?case by simp
  next
    case 2
    show ?case
    proof (cases "json_child j st")
      case None
      with transform_child(2)[OF 2(2)] show ?thesis by simp
    next
      case (Some y)
      with transform_child(1)[OF 2(2)] obtain y' where
        "json_child j' st = Some y'" "transformJSONStrings u f y (step_path u base st) = Some y'" by blast
      with Some Cons.IH(2)[of y] 2(1) show ?thesis by simp
    qed
  }
qed auto

section \<open>Selected values\<close>

type_synonym selected_value = "string \<times> string"

definition as_array :: "json option \<Rightarrow> json list option" where
  "as_array v = (case v of Some (JArr xs) \<Rightarrow> Some xs | _ \<Rightarrow> None)"

definition as_string :: "json option \<Rightarrow> string option" where
  "as_string v = (case v of Some (JStr s) \<Rightarrow> Some s | _ \<Rightarrow> None)"

definition as_object :: "json \<Rightarrow> json_object option" where
  "as_object v = (case v of JObj kvs \<Rightarrow> Some kvs | _ \<Rightarrow> None)"

definition array_or_empty :: "json option \<Rightarrow> json list" where
  "array_or_empty v = (case as_array v of Some xs \<Rightarrow> xs | None \<Rightarrow> [])"

definition collectionLength :: "json option \<Rightarrow> int" where
  "collectionLength v = int (length (array_or_empty v))"

text \<open>The first of the keys whose value is a nonempty string.\<close>

fun first_string :: "json_object option \<Rightarrow> string list \<Rightarrow> (string \<times> string) option" where
  "first_string m [] = None"
| "first_string m (k # ks) = (case as_string (obj_get m k) of
     Some s \<Rightarrow> if s \<noteq> '''' then Some (k, s) else first_string m ks | None \<Rightarrow> first_string m ks)"

definition attachment_path :: "nat \<Rightarrow> string" where
  "attachment_path i = ''content.data.attachments['' @ show_nat i @ '']''"

definition contentMIMETypes :: "content_envelope \<Rightarrow> selected_value list" where
  "contentMIMETypes c = (if ce_Type c \<noteq> '''' then [(''content.type'', ce_Type c)] else []) @
     map (\<lambda>(i, raw). case first_string (as_object raw) [''mime_type'', ''mimeType''] of
         Some (k, s) \<Rightarrow> (attachment_path i @ ''.'' @ k, s)
       | None \<Rightarrow> (attachment_path i, ''''))
       (List.enumerate 0 (array_or_empty (obj_get (ce_Data c) ''attachments'')))"

definition stringValues :: "json option \<Rightarrow> string \<Rightarrow> selected_value list" where
  "stringValues v path = concat (map (\<lambda>(i, raw). case raw of
       JStr s \<Rightarrow> if s \<noteq> '''' then [(index_path path i, s)] else [] | _ \<Rightarrow> [])
     (List.enumerate 0 (array_or_empty v)))"

definition tool_value :: "nat \<times> json \<Rightarrow> selected_value list" where
  "tool_value it = (let path = index_path ''content.data.tools'' (fst it) in
     case snd it of JStr s \<Rightarrow> [(path, s)]
     | JObj kvs \<Rightarrow> (case as_string (map_of kvs ''name'') of Some s \<Rightarrow> [(path @ ''.name'', s)] | None \<Rightarrow> [])
     | _ \<Rightarrow> [])"

definition file_type_value :: "nat \<times> json \<Rightarrow> selected_value list" where
  "file_type_value it = (case first_string (as_object (snd it)) [''file_type'', ''fileType'', ''extension''] of
     Some (k, s) \<Rightarrow> [(attachment_path (fst it) @ ''.'' @ k, s)] | None \<Rightarrow> [])"

definition selectorValues :: "string \<Rightarrow> evaluation_request \<Rightarrow> selected_value list" where
  "selectorValues selector req = (let data = ce_Data (req_Content req) in
     if selector \<in> set [''target.model'', ''target.provider'', ''target.data_region''] then
       (case as_string (obj_get (req_Target req) (drop 7 selector)) of
          Some s \<Rightarrow> if s \<noteq> '''' then [(selector, s)] else [] | None \<Rightarrow> [])
     else if selector = ''subject.roles'' then stringValues (obj_get (req_Subject req) ''roles'') selector
     else if selector = ''content.tools'' then
       concat (map tool_value (List.enumerate 0 (array_or_empty (obj_get data ''tools''))))
     else if selector = ''content.domains'' then stringValues (obj_get data ''domains'') ''content.data.domains''
     else if selector = ''content.file_types'' then
       stringValues (obj_get data ''file_types'') ''content.data.file_types'' @
       concat (map file_type_value (List.enumerate 0 (array_or_empty (obj_get data ''attachments''))))
     else [])"

definition contains :: "unicode_tables \<Rightarrow> string list \<Rightarrow> string \<Rightarrow> bool \<Rightarrow> bool" where
  "contains u values candidate caseSensitive \<longleftrightarrow>
     (\<exists>v \<in> set values. if caseSensitive then v = candidate else equal_fold u v candidate)"

section \<open>Schema targets\<close>

definition message_json :: "message \<Rightarrow> json" where
  "message_json m = JObj [(''role'', JStr (msg_Role m)), (''content'', JStr (msg_Content m))]"

text \<open>
  What marshalling and unmarshalling an envelope gives: an object of the fields that are not empty
  (\<open>omitempty\<close>).
\<close>

definition content_json :: "content_envelope \<Rightarrow> json" where
  "content_json c = JObj (
     (if ce_Type c = '''' then [] else [(''type'', JStr (ce_Type c))]) @
     (if ce_Text c = '''' then [] else [(''text'', JStr (ce_Text c))]) @
     (if ce_Messages c = [] then [] else [(''messages'', JArr (map message_json (ce_Messages c)))]) @
     (case ce_Data c of None \<Rightarrow> [] | Some [] \<Rightarrow> [] | Some kvs \<Rightarrow> [(''data'', JObj kvs)]))"

definition schemaTarget :: "string \<Rightarrow> evaluation_request \<Rightarrow> json" where
  "schemaTarget target req =
     (if target = ''content'' then content_json (req_Content req)
      else if target = ''content.data'' then data_json (ce_Data (req_Content req))
      else if target = ''metadata'' then data_json (req_Metadata req)
      else if target = ''subject'' then data_json (req_Subject req)
      else if target = ''target'' then data_json (req_Target req)
      else JNull)"

section \<open>JSON pointers\<close>

text \<open>
  Whether \<open>fmt.Sscanf(part, "%d")\<close> reads an integer: after white space other than a newline, an
  optional sign and at least one digit, in the range of \<open>int64\<close>. What follows the digits is ignored.
\<close>

fun skip_space :: "(nat \<times> string) list \<Rightarrow> string option" where
  "skip_space [] = Some []"
| "skip_space ((r, bs) # segs) = (if r = 10 then None else if is_space r then skip_space segs
     else Some (concat (map snd ((r, bs) # segs))))"

definition digits_value :: "string \<Rightarrow> int" where
  "digits_value s = foldl (\<lambda>acc c. acc * 10 + digit_val c) 0 s"

definition scans_int :: "string \<Rightarrow> bool" where
  "scans_int part = (case skip_space (rune_segs part) of None \<Rightarrow> False
     | Some t \<Rightarrow>
         let neg = (t \<noteq> [] \<and> hd t = CHR ''-'');
             ds = takeWhile is_digit (if t \<noteq> [] \<and> (hd t = CHR ''-'' \<or> hd t = CHR ''+'') then tl t else t) in
         ds \<noteq> [] \<and> (if neg then digits_value ds \<le> two63 else digits_value ds < two63))"

definition trim_prefix :: "string \<Rightarrow> string \<Rightarrow> string" where
  "trim_prefix p s = (if has_prefix p s then drop (length p) s else s)"

definition unescape_pointer :: "string \<Rightarrow> string" where
  "unescape_pointer part = replace_pair (CHR ''~'') (CHR ''0'') ''~'' (replace_pair (CHR ''~'') (CHR ''1'') ''/'' part)"

definition pointer_step :: "unicode_tables \<Rightarrow> string \<Rightarrow> string \<Rightarrow> string" where
  "pointer_step u acc part = (if part = '''' then acc
     else let p = unescape_pointer part in
       if scans_int p then acc @ ''['' @ p @ '']'' else childPath u acc p)"

definition pointerJSONPath :: "unicode_tables \<Rightarrow> string \<Rightarrow> string" where
  "pointerJSONPath u pointer = foldl (pointer_step u) '''' (split_on (CHR ''/'') (trim_prefix ''/'' pointer))"

end
