(* ===== verification/GR_Redaction.thy ===== *)
theory GR_Redaction
  imports GR_Content "HOL-Library.Product_Lexorder"
begin

text \<open>
  \<open>applyReplacements\<close> of \<open>internal/engine/evaluator.go\<close>. The replacements of each path are sorted,
  a subset that does not overlap is selected, and the selected ones are spliced in from the right.
  A slice expression out of range panics in Go: \<open>splice\<close> returns \<open>None\<close> there, and the lemmas show
  that replacements with \<open>0 \<le> start \<le> end\<close> never reach it.

  The message slice of the envelope is shared with the caller's request: the loop writes the new
  contents through it. The model returns the caller's envelope after the call beside the result.
\<close>

record replacement =
  rp_path :: string
  rp_value :: string
  rp_start :: int
  rp_end :: int

section \<open>The operations\<close>

text \<open>The comparison of \<open>sort.Slice\<close> as a key: start, then the longer first, then the value.\<close>

definition replacement_key :: "replacement \<Rightarrow> int \<times> int \<times> string" where
  "replacement_key r = (rp_start r, - rp_end r, rp_value r)"

fun select_items :: "int \<Rightarrow> int \<Rightarrow> replacement list \<Rightarrow> replacement list" where
  "select_items len lastEnd [] = []"
| "select_items len lastEnd (r # rs) =
     (if rp_start r < 0 \<or> rp_end r > len \<or> rp_start r < lastEnd then select_items len lastEnd rs
      else r # select_items len (rp_end r) rs)"

text \<open>\<open>value[:item.start] + item.value + value[item.end:]\<close>\<close>

definition splice :: "replacement \<Rightarrow> string \<Rightarrow> string option" where
  "splice r v = (if 0 \<le> rp_start r \<and> rp_start r \<le> int (length v) \<and> 0 \<le> rp_end r \<and> rp_end r \<le> int (length v)
     then Some (take (nat (rp_start r)) v @ rp_value r @ drop (nat (rp_end r)) v) else None)"

text \<open>The loop from the last selected item down to the first.\<close>

fun splice_all :: "replacement list \<Rightarrow> string \<Rightarrow> string option" where
  "splice_all [] v = Some v"
| "splice_all (r # rs) v = (case splice_all rs v of None \<Rightarrow> None | Some w \<Rightarrow> splice r w)"

definition items_at :: "replacement list \<Rightarrow> string \<Rightarrow> replacement list" where
  "items_at rs path = filter (\<lambda>r. rp_path r = path) rs"

definition selected_at :: "replacement list \<Rightarrow> string \<Rightarrow> string \<Rightarrow> replacement list" where
  "selected_at rs path v = select_items (int (length v)) (-1) (sort_key replacement_key (items_at rs path))"

definition apply_at :: "replacement list \<Rightarrow> string \<Rightarrow> string \<Rightarrow> string option" where
  "apply_at rs path v = splice_all (selected_at rs path v) v"

fun apply_messages :: "(string \<Rightarrow> string \<Rightarrow> string option) \<Rightarrow> nat \<Rightarrow> message list \<Rightarrow> message list option" where
  "apply_messages f i [] = Some []"
| "apply_messages f i (m # ms) = (case f (message_path i) (msg_Content m) of None \<Rightarrow> None
     | Some s \<Rightarrow> (case apply_messages f (Suc i) ms of None \<Rightarrow> None
       | Some rest \<Rightarrow> Some (m\<lparr>msg_Content := s\<rparr> # rest)))"

definition apply_data :: "unicode_tables \<Rightarrow> (string \<Rightarrow> string \<Rightarrow> string option) \<Rightarrow> json_object option \<Rightarrow> json_object option option" where
  "apply_data u f data = (case data of None \<Rightarrow> Some None
     | Some kvs \<Rightarrow> (case transformJSONStrings u f (JObj kvs) ''content.data'' of
         Some (JObj kvs') \<Rightarrow> Some (Some kvs') | _ \<Rightarrow> None))"

text \<open>
  The result and the caller's envelope afterwards: its text and data are untouched, its messages are
  the ones the loop wrote. \<open>None\<close> is a panic.
\<close>

definition applyReplacements :: "unicode_tables \<Rightarrow> content_envelope \<Rightarrow> replacement list \<Rightarrow>
    (content_envelope \<times> content_envelope) option" where
  "applyReplacements u c rs = (let f = apply_at rs in
     case f ''content.text'' (ce_Text c) of None \<Rightarrow> None
     | Some text \<Rightarrow> (case apply_messages f 0 (ce_Messages c) of None \<Rightarrow> None
       | Some msgs \<Rightarrow> (case apply_data u f (ce_Data c) of None \<Rightarrow> None
         | Some data \<Rightarrow> Some (c\<lparr>ce_Text := text, ce_Messages := msgs, ce_Data := data\<rparr>,
             c\<lparr>ce_Messages := msgs\<rparr>))))"

section \<open>What is selected\<close>

definition wf_replacement :: "replacement \<Rightarrow> bool" where [wf_defs]:
  "wf_replacement r \<longleftrightarrow> 0 \<le> rp_start r \<and> rp_start r \<le> rp_end r"

text \<open>In order, apart, and within the text from \<open>lo\<close> on.\<close>

fun apart_from :: "int \<Rightarrow> int \<Rightarrow> replacement list \<Rightarrow> bool" where
  "apart_from lo len [] = True"
| "apart_from lo len (r # rs) = (lo \<le> rp_start r \<and> 0 \<le> rp_start r \<and> rp_start r \<le> rp_end r \<and> rp_end r \<le> len
     \<and> apart_from (rp_end r) len rs)"

lemma select_items_apart: "list_all wf_replacement rs \<Longrightarrow> apart_from lo len (select_items len lo rs)"
  by (induction len lo rs rule: select_items.induct) (auto simp: wf_replacement_def)

lemma select_items_subset: "set (select_items len lo rs) \<subseteq> set rs"
  by (induction len lo rs rule: select_items.induct) auto

lemma apart_from_mono: "apart_from lo len rs \<Longrightarrow> lo' \<le> lo \<Longrightarrow> apart_from lo' len rs"
  by (cases rs) auto

lemma apart_from_bounds:
  "apart_from lo len rs \<Longrightarrow> r \<in> set rs \<Longrightarrow> lo \<le> rp_start r \<and> 0 \<le> rp_start r \<and> rp_start r \<le> rp_end r \<and> rp_end r \<le> len"
  by (induction rs arbitrary: lo) fastforce+

lemma wf_items_at: "list_all wf_replacement rs \<Longrightarrow> list_all wf_replacement (sort_key replacement_key (items_at rs p))"
  by (auto simp: list_all_iff items_at_def)

section \<open>Splicing from the right is one pass from the left\<close>

text \<open>The text from \<open>pos\<close> on with the items in place, in one pass.\<close>

fun weave :: "nat \<Rightarrow> replacement list \<Rightarrow> string \<Rightarrow> string" where
  "weave pos [] v = drop pos v"
| "weave pos (r # rs) v = take (nat (rp_start r) - pos) (drop pos v) @ rp_value r @ weave (nat (rp_end r)) rs v"

lemma weave_skip:
  assumes "apart_from (int q) (int (length v)) rs" "p \<le> q" "q \<le> length v"
  shows "weave p rs v = take (q - p) (drop p v) @ weave q rs v"
proof (cases rs)
  case Nil
  with assms show ?thesis by (simp add: drop_drop flip: drop_drop) (metis append_take_drop_id drop_drop le_add_diff_inverse2)
next
  case (Cons r rest)
  with assms(1) have s: "q \<le> nat (rp_start r)" by auto
  have "take (nat (rp_start r) - p) (drop p v) =
      take (q - p) (drop p v) @ take (nat (rp_start r) - q) (drop q v)"
    using take_add[of "q - p" "nat (rp_start r) - q" "drop p v"] s assms(2) by (simp add: add.commute)
  with Cons show ?thesis by simp
qed

lemma weave_0: "apart_from lo (int (length v)) rs \<Longrightarrow> p \<le> length v \<Longrightarrow> apart_from (int p) (int (length v)) rs \<Longrightarrow>
   weave 0 rs v = take p v @ weave p rs v"
  using weave_skip[of p v rs 0] by simp

lemma splice_all_weave:
  "apart_from lo (int (length v)) rs \<Longrightarrow> splice_all rs v = Some (weave 0 rs v)"
proof (induction rs arbitrary: lo)
  case (Cons r rs)
  let ?s = "nat (rp_start r)" and ?e = "nat (rp_end r)"
  from Cons.prems have b: "?s \<le> ?e" "?e \<le> length v" "0 \<le> rp_start r" "0 \<le> rp_end r"
    and rest: "apart_from (rp_end r) (int (length v)) rs" by auto
  from Cons.IH[OF rest] have IH: "splice_all rs v = Some (weave 0 rs v)" .
  have w: "weave 0 rs v = take ?e v @ weave ?e rs v"
    using weave_0[OF rest b(2)] rest b by simp
  have "length (weave 0 rs v) \<ge> ?e" using b by (simp add: w)
  with b IH have "splice_all (r # rs) v = Some (take ?s (weave 0 rs v) @ rp_value r @ drop ?e (weave 0 rs v))"
    by (simp add: splice_def) linarith
  moreover have "take ?s (weave 0 rs v) = take ?s v" "drop ?e (weave 0 rs v) = weave ?e rs v"
    using b by (simp_all add: w)
  ultimately show ?case by simp
qed simp

lemma apply_at_weave:
  assumes "list_all wf_replacement rs"
  shows "apply_at rs path v = Some (weave 0 (selected_at rs path v) v)"
  unfolding apply_at_def selected_at_def
  by (rule splice_all_weave[OF select_items_apart[OF wf_items_at[OF assms]]])

section \<open>Well-formed replacements never panic\<close>

lemma apply_messages_total:
  "(\<And>p v. \<exists>s. f p v = Some s) \<Longrightarrow> \<exists>out. apply_messages f i ms = Some out \<and> length out = length ms \<and>
     (\<forall>k < length ms. msg_Role (out ! k) = msg_Role (ms ! k) \<and>
        f (message_path (i + k)) (msg_Content (ms ! k)) = Some (msg_Content (out ! k)))"
proof (induction ms arbitrary: i)
  case (Cons m ms)
  obtain s where s: "f (message_path i) (msg_Content m) = Some s" using Cons.prems by blast
  obtain out where out: "apply_messages f (Suc i) ms = Some out" "length out = length ms"
    "\<forall>k < length ms. msg_Role (out ! k) = msg_Role (ms ! k) \<and>
        f (message_path (Suc i + k)) (msg_Content (ms ! k)) = Some (msg_Content (out ! k))"
    using Cons.IH[OF Cons.prems, of "Suc i"] by blast
  show ?case
    by (intro exI[of _ "m\<lparr>msg_Content := s\<rparr> # out"]) (auto simp: s out(1,2) out(3)[simplified] less_Suc_eq_0_disj)
qed auto

lemma opt_map_total: "(\<And>x. x \<in> set xs \<Longrightarrow> \<exists>y. f x = Some y) \<Longrightarrow> \<exists>ys. opt_map f xs = Some ys"
proof (induction xs)
  case (Cons x xs)
  then obtain y ys where "f x = Some y" "opt_map f xs = Some ys" by fastforce
  then show ?case by simp
qed simp

lemma transformJSONStrings_total:
  "(\<And>p v. \<exists>s. f p v = Some s) \<Longrightarrow> \<exists>j'. transformJSONStrings u f j path = Some j'"
proof (induction u f j path rule: transformJSONStrings.induct)
  case (1 u f s path)
  then show ?case by simp
next
  case (2 u f xs path)
  have "\<exists>ys. opt_map (\<lambda>(i, x). transformJSONStrings u f x (index_path path i)) (List.enumerate 0 xs) = Some ys"
    by (rule opt_map_total) (use 2 in auto)
  then show ?case by auto
next
  case (3 u f kvs path)
  have "\<exists>ys. opt_map (\<lambda>(k, x). map_option (Pair k) (transformJSONStrings u f x (childPath u path k))) kvs = Some ys"
    by (rule opt_map_total) (use 3 in fastforce)
  then show ?case by auto
qed auto

lemma apply_data_total:
  assumes "\<And>p v. \<exists>s. f p v = Some s"
  shows "\<exists>d. apply_data u f data = Some d"
proof (cases data)
  case (Some kvs)
  obtain j where "transformJSONStrings u f (JObj kvs) ''content.data'' = Some j"
    using transformJSONStrings_total[of f u "JObj kvs"] assms by blast
  then show ?thesis using Some by (auto simp: apply_data_def split: option.splits)
qed (simp add: apply_data_def)

lemma applyReplacements_total:
  assumes "list_all wf_replacement rs"
  shows "\<exists>out caller. applyReplacements u c rs = Some (out, caller)"
proof -
  have f: "\<exists>s. apply_at rs p v = Some s" for p v using apply_at_weave[OF assms] by blast
  obtain t where "apply_at rs ''content.text'' (ce_Text c) = Some t" using f by blast
  moreover obtain ms where "apply_messages (apply_at rs) 0 (ce_Messages c) = Some ms"
    using apply_messages_total[of "apply_at rs" 0] f by blast
  moreover obtain d where "apply_data u (apply_at rs) (ce_Data c) = Some d"
    using apply_data_total f by blast
  ultimately show ?thesis by (simp add: applyReplacements_def)
qed

section \<open>Which bytes survive\<close>

definition covers :: "replacement \<Rightarrow> replacement \<Rightarrow> bool" where
  "covers q r \<longleftrightarrow> rp_start q \<le> rp_start r \<and> rp_end r \<le> rp_end q"

definition apart_or_nested :: "replacement \<Rightarrow> replacement \<Rightarrow> bool" where
  "apart_or_nested q r \<longleftrightarrow> rp_end q \<le> rp_start r \<or> rp_end r \<le> rp_start q \<or> covers q r \<or> covers r q"

definition nested_spans :: "replacement list \<Rightarrow> bool" where
  "nested_spans rs \<longleftrightarrow> (\<forall>q \<in> set rs. \<forall>r \<in> set rs. apart_or_nested q r)"

definition in_text :: "int \<Rightarrow> replacement list \<Rightarrow> bool" where
  "in_text len rs \<longleftrightarrow> list_all (\<lambda>r. wf_replacement r \<and> rp_end r \<le> len) rs"

lemma replacement_key_le:
  "replacement_key q \<le> replacement_key r \<Longrightarrow>
     rp_start q \<le> rp_start r \<and> (rp_start q = rp_start r \<longrightarrow> rp_end r \<le> rp_end q)"
  by (auto simp: replacement_key_def less_eq_prod_def)

lemma skipped_covered:
  assumes "replacement_key q \<le> replacement_key r" "apart_or_nested q r" "rp_start r < rp_end q"
    "wf_replacement r"
  shows "covers q r"
  using assms replacement_key_le[OF assms(1)]
  by (auto simp: apart_or_nested_def covers_def wf_replacement_def)

lemma select_items_cover:
  "sorted (map replacement_key (q # rs)) \<Longrightarrow> in_text len rs \<Longrightarrow> nested_spans (q # rs) \<Longrightarrow> r \<in> set rs \<Longrightarrow>
     covers q r \<or> (\<exists>q' \<in> set (select_items len (rp_end q) rs). covers q' r)"
proof (induction rs arbitrary: q)
  case (Cons x rs)
  have x: "wf_replacement x" "rp_end x \<le> len" and rest: "in_text len rs"
    using Cons.prems(2) by (auto simp: in_text_def)
  show ?case
  proof (cases "rp_start x < rp_end q")
    case True
    then have "covers q x"
      using Cons.prems(1,3) x(1) by (intro skipped_covered) (auto simp: nested_spans_def)
    moreover have "r \<in> set rs \<Longrightarrow> covers q r \<or> (\<exists>q' \<in> set (select_items len (rp_end q) rs). covers q' r)"
      using Cons.prems rest by (intro Cons.IH) (auto simp: nested_spans_def)
    ultimately show ?thesis using Cons.prems(4) True by auto
  next
    case False
    then have sel: "select_items len (rp_end q) (x # rs) = x # select_items len (rp_end x) rs"
      using x by (auto simp: wf_replacement_def)
    have "r \<in> set rs \<Longrightarrow> covers x r \<or> (\<exists>q' \<in> set (select_items len (rp_end x) rs). covers q' r)"
      using Cons.prems rest by (intro Cons.IH) (auto simp: nested_spans_def)
    then show ?thesis using Cons.prems(4) unfolding sel by (auto simp: covers_def)
  qed
qed simp

lemma selected_at_cover:
  assumes "in_text (int (length v)) (items_at rs path)" "nested_spans (items_at rs path)"
    and "r \<in> set (items_at rs path)"
  shows "\<exists>q \<in> set (selected_at rs path v). covers q r"
proof -
  define items where "items = sort_key replacement_key (items_at rs path)"
  have items: "set items = set (items_at rs path)" "sorted (map replacement_key items)"
    by (simp_all add: items_def)
  with assms(3) obtain x xs where xs: "items = x # xs" by (cases items) auto
  have "wf_replacement x" "rp_end x \<le> int (length v)" "in_text (int (length v)) xs"
    using assms(1) items(1) by (auto simp: in_text_def list_all_iff xs)
  then have sel: "selected_at rs path v = x # select_items (int (length v)) (rp_end x) xs"
    unfolding selected_at_def items_def[symmetric] xs by (auto simp: wf_replacement_def)
  have "nested_spans (x # xs)" using assms(2) items(1) by (simp add: nested_spans_def xs)
  with items(2) \<open>in_text _ xs\<close> have "r \<in> set xs \<Longrightarrow>
      covers x r \<or> (\<exists>q \<in> set (select_items (int (length v)) (rp_end x) xs). covers q r)"
    by (intro select_items_cover) (auto simp: xs)
  moreover have "r = x \<or> r \<in> set xs" using assms(3) items(1) by (auto simp: xs)
  ultimately show ?thesis unfolding sel by (auto simp: covers_def)
qed

definition in_span :: "nat \<Rightarrow> replacement \<Rightarrow> bool" where
  "in_span i r \<longleftrightarrow> rp_start r \<le> int i \<and> int i < rp_end r"

lemma weave_agree:
  assumes "apart_from (int pos) (int (length v)) rs" "length v' = length v"
    and "\<And>i. pos \<le> i \<Longrightarrow> i < length v \<Longrightarrow> (\<forall>r \<in> set rs. \<not> in_span i r) \<Longrightarrow> v ! i = v' ! i"
  shows "weave pos rs v = weave pos rs v'"
  using assms
proof (induction rs arbitrary: pos)
  case Nil
  then show ?case by (auto intro!: nth_equalityI)
next
  case (Cons r rs)
  have b: "int pos \<le> rp_start r" "rp_start r \<le> rp_end r" "rp_end r \<le> int (length v)"
    and rest: "apart_from (rp_end r) (int (length v)) rs" using Cons.prems(1) by auto
  have "v ! i = v' ! i" if "pos \<le> i" "i < nat (rp_start r)" for i
    using that b apart_from_bounds[OF rest] by (intro Cons.prems(3)) (force simp: in_span_def)+
  then have "take (nat (rp_start r) - pos) (drop pos v) = take (nat (rp_start r) - pos) (drop pos v')"
    using Cons.prems(2) by (auto intro!: nth_equalityI)
  moreover have "weave (nat (rp_end r)) rs v = weave (nat (rp_end r)) rs v'"
    using b rest Cons.prems(2) by (intro Cons.IH) (auto intro!: Cons.prems(3) simp: in_span_def)
  ultimately show ?case by simp
qed

lemma apply_at_agree:
  assumes "in_text (int (length v)) (items_at rs path)" "nested_spans (items_at rs path)"
    and "length v' = length v"
    and agree: "\<And>i. i < length v \<Longrightarrow> \<forall>r \<in> set (items_at rs path). \<not> in_span i r \<Longrightarrow> v ! i = v' ! i"
  shows "apply_at rs path v = apply_at rs path v'"
proof -
  have sel: "selected_at rs path v' = selected_at rs path v"
    using assms(3) by (simp add: selected_at_def)
  have wf: "list_all wf_replacement (sort_key replacement_key (items_at rs path))"
    using assms(1) by (auto simp: in_text_def list_all_iff)
  have apart: "apart_from (-1) (int (length v)) (selected_at rs path v)"
    unfolding selected_at_def by (rule select_items_apart[OF wf])
  then have apart0: "apart_from (int 0) (int (length v)) (selected_at rs path v)"
    by (cases "selected_at rs path v") auto
  have "v ! i = v' ! i" if i: "i < length v" "\<forall>q \<in> set (selected_at rs path v). \<not> in_span i q" for i
  proof (rule agree[OF i(1)], intro ballI notI)
    fix r assume "r \<in> set (items_at rs path)" "in_span i r"
    then obtain q where "q \<in> set (selected_at rs path v)" "covers q r"
      using selected_at_cover[OF assms(1,2)] by blast
    with i(2) \<open>in_span i r\<close> show False by (auto simp: in_span_def covers_def)
  qed
  then have "weave 0 (selected_at rs path v) v = weave 0 (selected_at rs path v) v'"
    using apart0 assms(3) by (intro weave_agree) auto
  then show ?thesis
    using splice_all_weave[OF apart] splice_all_weave[of "-1" v' "selected_at rs path v"] apart assms(3)
    by (simp add: apply_at_def sel)
qed


text \<open>
  Redaction hides what was matched: if the spans found at a path are pairwise apart or nested
  and lie within the text, the redacted text depends only on the length of the text and on its bytes
  outside every span, so two texts that differ only inside matched spans are redacted to the same.
\<close>

theorem redaction_hides_matches:
  assumes "in_text (int (length v)) (items_at rs path)" "nested_spans (items_at rs path)"
    and "length v' = length v"
    and "\<And>i. i < length v \<Longrightarrow> \<forall>r \<in> set (items_at rs path). \<not> in_span i r \<Longrightarrow> v ! i = v' ! i"
  shows "apply_at rs path v = apply_at rs path v'"
  using assms by (rule apply_at_agree)

theorem redaction_hides_matches_witness:
  "apply_at [\<lparr>rp_path = ''p'', rp_value = ''*'', rp_start = 0, rp_end = 3\<rparr>] ''p'' ''abcd'' =
   apply_at [\<lparr>rp_path = ''p'', rp_value = ''*'', rp_start = 0, rp_end = 3\<rparr>] ''p'' ''xyzd''"
proof (rule redaction_hides_matches)
  let ?rs = "[\<lparr>rp_path = ''p'', rp_value = ''*'', rp_start = 0, rp_end = 3\<rparr>]"
  show "in_text (int (length ''abcd'')) (items_at ?rs ''p'')" "nested_spans (items_at ?rs ''p'')"
    by (simp_all add: in_text_def items_at_def wf_replacement_def nested_spans_def apart_or_nested_def covers_def)
  show "''abcd'' ! i = ''xyzd'' ! i" if "i < length ''abcd''" "\<forall>r \<in> set (items_at ?rs ''p''). \<not> in_span i r" for i
    using that by (simp add: items_at_def in_span_def nth_Cons')
qed simp

text \<open>
  C28. Two matches that overlap without one containing the other are not both redacted: only the first
  is replaced, and the text returned still ends with everything from the end of the first match on,
  the rest of the second match included.
\<close>

theorem partial_overlap_leaks:
  assumes "0 \<le> s1" "s1 < s2" "s2 < e1" "e1 < e2" "e2 \<le> int (length v)"
  shows "apply_at [\<lparr>rp_path = path, rp_value = x, rp_start = s1, rp_end = e1\<rparr>,
      \<lparr>rp_path = path, rp_value = y, rp_start = s2, rp_end = e2\<rparr>] path v =
    Some (take (nat s1) v @ x @ take (nat e2 - nat e1) (drop (nat e1) v) @ drop (nat e2) v)"
proof -
  have "take (nat e2 - nat e1) (drop (nat e1) v) @ drop (nat e2) v = drop (nat e1) v"
    using assms take_add[of "nat e1" "nat e2 - nat e1" v]
    by (metis append_take_drop_id drop_drop le_add_diff_inverse2 less_imp_le nat_mono)
  with assms show ?thesis
    by (simp add: apply_at_def selected_at_def items_at_def replacement_key_def splice_def less_eq_prod_def)
qed

theorem partial_overlap_leaks_witness:
  "apply_at [\<lparr>rp_path = ''p'', rp_value = ''*'', rp_start = 0, rp_end = 3\<rparr>,
     \<lparr>rp_path = ''p'', rp_value = ''#'', rp_start = 2, rp_end = 5\<rparr>] ''p'' ''abcdef'' = Some ''*def''"
  using partial_overlap_leaks[of 0 2 3 5 "''abcdef''" "''p''" "''*''" "''#''"] by simp

section \<open>The whole envelope\<close>

definition redacted :: "replacement list \<Rightarrow> string \<Rightarrow> string \<Rightarrow> string" where
  "redacted rs path v = weave 0 (selected_at rs path v) v"

lemma apply_at_redacted: "list_all wf_replacement rs \<Longrightarrow> apply_at rs path v = Some (redacted rs path v)"
  by (simp add: redacted_def apply_at_weave)

lemma apply_messages_Some:
  "apply_messages (\<lambda>p v. Some (g p v)) i ms =
     Some (map (\<lambda>(k, m). m\<lparr>msg_Content := g (message_path k) (msg_Content m)\<rparr>) (List.enumerate i ms))"
  by (induction ms arbitrary: i) auto

lemma message_content_eq: "m\<lparr>msg_Content := x\<rparr> = m \<longleftrightarrow> x = msg_Content m" for m :: message
  by (cases m) auto

lemma map_enumerate_eq: "map f (List.enumerate 0 xs) = xs \<longleftrightarrow> (\<forall>i < length xs. f (i, xs ! i) = xs ! i)"
  unfolding list_eq_iff_nth_eq[of "map f (List.enumerate 0 xs)" xs] by (simp add: nth_enumerate_eq)

definition redacted_messages :: "replacement list \<Rightarrow> message list \<Rightarrow> message list" where
  "redacted_messages rs ms =
     map (\<lambda>(k, m). m\<lparr>msg_Content := redacted rs (message_path k) (msg_Content m)\<rparr>) (List.enumerate 0 ms)"

lemma applyReplacements_shape:
  assumes "list_all wf_replacement rs"
  obtains data where
    "apply_data u (\<lambda>p v. Some (redacted rs p v)) (ce_Data c) = Some data"
    "applyReplacements u c rs =
       Some (c\<lparr>ce_Text := redacted rs ''content.text'' (ce_Text c),
              ce_Messages := redacted_messages rs (ce_Messages c), ce_Data := data\<rparr>,
             c\<lparr>ce_Messages := redacted_messages rs (ce_Messages c)\<rparr>)"
proof -
  have f: "apply_at rs = (\<lambda>p v. Some (redacted rs p v))"
    by (intro ext) (rule apply_at_redacted[OF assms])
  obtain data where d: "apply_data u (\<lambda>p v. Some (redacted rs p v)) (ce_Data c) = Some data"
    using apply_data_total[of "\<lambda>p v. Some (redacted rs p v)"] by auto
  show thesis
    by (rule that[OF d]) (simp add: applyReplacements_def f apply_messages_Some redacted_messages_def d Let_def)
qed

lemma apply_data_at:
  assumes "apply_data u (\<lambda>p v. Some (g p v)) data = Some data'"
  shows "json_at (data_json data) sts = Some (JStr s) \<Longrightarrow>
      json_at (data_json data') sts = Some (JStr (g (path_to u ''content.data'' sts) s))"
    and "json_at (data_json data) sts = None \<longleftrightarrow> json_at (data_json data') sts = None"
proof -
  have *: "transformJSONStrings u (\<lambda>p v. Some (g p v)) (data_json data) ''content.data'' = Some (data_json data')"
    using assms by (cases data) (auto simp: apply_data_def data_json_def split: option.splits json.splits dest: sym)
  show "json_at (data_json data) sts = Some (JStr s) \<Longrightarrow>
      json_at (data_json data') sts = Some (JStr (g (path_to u ''content.data'' sts) s))"
    using transform_at(1)[OF *] by fastforce
  show "json_at (data_json data) sts = None \<longleftrightarrow> json_at (data_json data') sts = None"
    using transform_at[OF *, of sts] by fastforce
qed

text \<open>
  C16. Applying well-formed replacements never panics. The result keeps the shape of the envelope; its
  text, the content of each message, and each string at a position of its data are redacted by the
  replacements of that position's path, and roles are kept.
\<close>

theorem applyReplacements_spec:
  assumes "list_all wf_replacement rs"
  shows "\<exists>out caller. applyReplacements u c rs = Some (out, caller) \<and>
    ce_Type out = ce_Type c \<and>
    ce_Text out = redacted rs ''content.text'' (ce_Text c) \<and>
    map msg_Role (ce_Messages out) = map msg_Role (ce_Messages c) \<and>
    map msg_Content (ce_Messages out) =
      map (\<lambda>(i, m). redacted rs (message_path i) (msg_Content m)) (List.enumerate 0 (ce_Messages c)) \<and>
    (\<forall>sts. (json_at (data_json (ce_Data out)) sts = None) = (json_at (data_json (ce_Data c)) sts = None)) \<and>
    (\<forall>sts s. json_at (data_json (ce_Data c)) sts = Some (JStr s) \<longrightarrow>
      json_at (data_json (ce_Data out)) sts = Some (JStr (redacted rs (path_to u ''content.data'' sts) s)))"
proof -
  obtain data where data: "apply_data u (\<lambda>p v. Some (redacted rs p v)) (ce_Data c) = Some data"
    and eq: "applyReplacements u c rs =
       Some (c\<lparr>ce_Text := redacted rs ''content.text'' (ce_Text c),
              ce_Messages := redacted_messages rs (ce_Messages c), ce_Data := data\<rparr>,
             c\<lparr>ce_Messages := redacted_messages rs (ce_Messages c)\<rparr>)"
    by (rule applyReplacements_shape[OF assms])
  have roles: "map msg_Role (redacted_messages rs ms) = map msg_Role ms" for ms
    by (auto simp: redacted_messages_def enumerate_eq_zip intro!: nth_equalityI)
  have contents: "map msg_Content (redacted_messages rs ms) =
      map (\<lambda>(i, m). redacted rs (message_path i) (msg_Content m)) (List.enumerate 0 ms)" for ms
    by (simp add: redacted_messages_def case_prod_beta o_def)
  show ?thesis
    using apply_data_at[OF data] by (simp add: eq roles contents)
qed

lemma applyReplacements_messages:
  assumes "list_all wf_replacement rs" "applyReplacements u c rs = Some (out, caller)"
  shows "ce_Messages out = redacted_messages rs (ce_Messages c)"
    and "caller = c\<lparr>ce_Messages := redacted_messages rs (ce_Messages c)\<rparr>"
proof -
  obtain data where "applyReplacements u c rs =
       Some (c\<lparr>ce_Text := redacted rs ''content.text'' (ce_Text c),
              ce_Messages := redacted_messages rs (ce_Messages c), ce_Data := data\<rparr>,
             c\<lparr>ce_Messages := redacted_messages rs (ce_Messages c)\<rparr>)"
    by (rule applyReplacements_shape[OF assms(1)])
  with assms(2) show "ce_Messages out = redacted_messages rs (ce_Messages c)"
    "caller = c\<lparr>ce_Messages := redacted_messages rs (ce_Messages c)\<rparr>" by auto
qed

definition secret_message :: content_envelope where
  "secret_message = \<lparr>ce_Type = '''', ce_Text = '''', ce_Messages = [\<lparr>msg_Role = ''user'', msg_Content = ''key''\<rparr>], ce_Data = None\<rparr>"

definition secret_item :: replacement where
  "secret_item = \<lparr>rp_path = ''content.messages[0].content'', rp_value = ''*'', rp_start = 0, rp_end = 3\<rparr>"

theorem applyReplacements_spec_witness:
  "\<exists>out caller. applyReplacements ascii_tables secret_message [secret_item] = Some (out, caller) \<and> ce_Text out = ''''"
proof -
  have "list_all wf_replacement [secret_item]" by (simp add: secret_item_def wf_replacement_def)
  from applyReplacements_spec[OF this, of ascii_tables secret_message]
  show ?thesis
    by (force simp: secret_message_def redacted_def selected_at_def items_at_def secret_item_def)
qed

text \<open>
  The loop writes the messages through the slice it shares with the caller: after the call the
  caller's messages are those of the result, and the caller's envelope is what it was exactly when
  redaction changes no message.
\<close>

theorem applyReplacements_aliases_messages:
  assumes "list_all wf_replacement rs" "applyReplacements u c rs = Some (out, caller)"
  shows "ce_Messages caller = ce_Messages out \<and> ce_Text caller = ce_Text c \<and> ce_Data caller = ce_Data c \<and>
    (caller = c \<longleftrightarrow> (\<forall>i < length (ce_Messages c).
       redacted rs (message_path i) (msg_Content (ce_Messages c ! i)) = msg_Content (ce_Messages c ! i)))"
proof -
  have eq: "ce_Messages out = redacted_messages rs (ce_Messages c)"
    "caller = c\<lparr>ce_Messages := redacted_messages rs (ce_Messages c)\<rparr>"
    using applyReplacements_messages[OF assms] by auto
  have "redacted_messages rs (ce_Messages c) = ce_Messages c \<longleftrightarrow> (\<forall>i < length (ce_Messages c).
      redacted rs (message_path i) (msg_Content (ce_Messages c ! i)) = msg_Content (ce_Messages c ! i))"
    unfolding redacted_messages_def map_enumerate_eq by (simp add: message_content_eq)
  moreover have "caller = c \<longleftrightarrow> redacted_messages rs (ce_Messages c) = ce_Messages c"
    unfolding eq(2) by (cases c) simp
  ultimately show ?thesis by (simp add: eq)
qed

lemma secret_message_applied:
  "applyReplacements ascii_tables secret_message [secret_item] =
     Some (secret_message\<lparr>ce_Messages := [\<lparr>msg_Role = ''user'', msg_Content = ''*''\<rparr>]\<rparr>,
           secret_message\<lparr>ce_Messages := [\<lparr>msg_Role = ''user'', msg_Content = ''*''\<rparr>]\<rparr>)"
  by (simp add: secret_message_def secret_item_def applyReplacements_def Let_def apply_at_def selected_at_def
      items_at_def message_path_def show_eval splice_def apply_data_def)

theorem applyReplacements_aliases_messages_witness:
  "redacted [secret_item] (message_path 0) ''key'' \<noteq> ''key''"
proof -
  have "list_all wf_replacement [secret_item]" by (simp add: secret_item_def wf_replacement_def)
  from applyReplacements_aliases_messages[OF this secret_message_applied]
  show ?thesis by (simp add: secret_message_def)
qed

end
