(* ===== verification/GR_Secrets.thy ===== *)
theory GR_Secrets
  imports GR_Regexp
begin

text \<open>
  What the secrets detector of \<open>internal/engine/evaluator.go\<close> searches with: the patterns
  \<open>secretPatterns\<close> and \<open>contextualSecret\<close> as expressions, and \<open>shannonEntropy\<close>. The entropy is
  computed over the reals, without the rounding of \<open>float64\<close>.

  Under \<open>(?i)\<close> a letter matches both cases, and \<open>k\<close> and \<open>s\<close> also match U+212A and U+017F,
  which fold to them; a class of letters gains both.
\<close>

section \<open>Patterns\<close>

definition lit :: "string \<Rightarrow> regex" where
  "lit s = foldr (\<lambda>c r. RSeq (RClass [(byte c, byte c)]) r) s REmpty"

definition fold_class :: "char \<Rightarrow> (nat \<times> nat) list" where
  "fold_class c = (let b = byte c in
     if 97 \<le> b \<and> b \<le> 122 then [(b, b), (b - 32, b - 32)] @
       (if c = CHR ''k'' then [(0x212A, 0x212A)] else if c = CHR ''s'' then [(0x17F, 0x17F)] else [])
     else [(b, b)])"

definition ilit :: "string \<Rightarrow> regex" where
  "ilit s = foldr (\<lambda>c r. RSeq (RClass (fold_class c)) r) s REmpty"

definition chars :: "string \<Rightarrow> (nat \<times> nat) list" where
  "chars s = map (\<lambda>c. (byte c, byte c)) s"

definition alnum :: "(nat \<times> nat) list" where
  "alnum = [(65, 90), (97, 122), (48, 57)]"

definition ialnum :: "(nat \<times> nat) list" where
  "ialnum = alnum @ [(0x17F, 0x17F), (0x212A, 0x212A)]"

definition white :: "(nat \<times> nat) list" where
  "white = [(9, 10), (12, 13), (32, 32)]"

definition r_opt :: "regex \<Rightarrow> regex" where "r_opt r = RRep True 0 (Some 1) r"
definition r_star :: "regex \<Rightarrow> regex" where "r_star r = RRep True 0 None r"
definition r_lazy :: "regex \<Rightarrow> regex" where "r_lazy r = RRep False 0 None r"
definition r_plus :: "regex \<Rightarrow> regex" where "r_plus r = RRep True 1 None r"
definition r_min :: "nat \<Rightarrow> regex \<Rightarrow> regex" where "r_min n r = RRep True n None r"
definition r_between :: "nat \<Rightarrow> nat \<Rightarrow> regex \<Rightarrow> regex" where "r_between m n r = RRep True m (Some n) r"

fun rseq :: "regex list \<Rightarrow> regex" where
  "rseq [] = REmpty" | "rseq [r] = r" | "rseq (r # rs) = RSeq r (rseq rs)"

fun ralt :: "regex list \<Rightarrow> regex" where
  "ralt [] = RNone" | "ralt [r] = r" | "ralt (r # rs) = RAlt r (ralt rs)"

definition key_kind :: regex where
  "key_kind = r_opt (ralt [lit ''RSA '', lit ''EC '', lit ''OPENSSH '', lit ''DSA ''])"

definition pem_private_key :: regex where
  "pem_private_key = rseq [lit ''-----BEGIN '', key_kind, lit ''PRIVATE KEY-----'',
     r_lazy (RNotClass []), lit ''-----END '', key_kind, lit ''PRIVATE KEY-----'']"

definition authorization_header :: regex where
  "authorization_header = rseq [
     r_opt (rseq [ilit ''authorization'', r_star (RClass white), lit '':'', r_star (RClass white)]),
     ralt [ilit ''bearer'', ilit ''basic''], r_plus (RClass white),
     r_min 12 (RClass (ialnum @ chars ''._~+/=-''))]"

definition uri_userinfo :: regex where
  "uri_userinfo = rseq [RWordBoundary, RClass [(65, 90), (97, 122)], r_star (RClass (alnum @ chars ''+.-'')),
     lit ''://'', r_plus (RNotClass (chars ''/:@'' @ white)), lit '':'',
     r_plus (RNotClass (chars ''/@'' @ white)), lit ''@'', r_plus (RNotClass white)]"

definition known_token :: regex where
  "known_token = rseq [RWordBoundary, ralt [
     rseq [lit ''AKIA'', r_between 16 16 (RClass [(48, 57), (65, 90)])],
     rseq [lit ''gh'', RClass (chars ''pousr''), lit ''_'', r_between 20 255 (RClass alnum)],
     rseq [lit ''github_pat_'', r_between 20 255 (RClass (alnum @ chars ''_''))],
     rseq [lit ''sk-'', r_min 20 (RClass (alnum @ chars ''_-''))]], RWordBoundary]"

definition secretPatterns :: "(string \<times> string \<times> regex) list" where
  "secretPatterns = [(''pem_private_key'', ''pem-private-key'', pem_private_key),
     (''authorization'', ''authorization-header'', authorization_header),
     (''connection_string'', ''uri-userinfo'', uri_userinfo),
     (''known_token'', ''known-token-prefix'', known_token)]"

definition contextualSecret :: regex where
  "contextualSecret = rseq [
     ralt [rseq [ilit ''api'', r_opt (RClass (chars ''_-'')), ilit ''key''], ilit ''secret'', ilit ''token'', ilit ''password''],
     r_star (RClass white), RClass (chars '':=''), r_star (RClass white),
     r_opt (RClass [(0x22, 0x22), (0x27, 0x27)]),
     RGroup (r_min 20 (RClass (ialnum @ chars ''+/=_-'')))]"

section \<open>The capture group\<close>

text \<open>Whether every match of an expression has set group 1.\<close>

fun captures :: "regex \<Rightarrow> bool" where
  "captures (RGroup r) = True"
| "captures (RSeq a b) = (captures a \<or> captures b)"
| "captures (RAlt a b) = (captures a \<and> captures b)"
| "captures RNone = True"
| "captures _ = False"

definition preserves :: "(mstate \<Rightarrow> bool) \<Rightarrow> (mstate \<Rightarrow> mstate list) \<Rightarrow> bool" where
  "preserves P step \<longleftrightarrow> (\<forall>st. P st \<longrightarrow> (\<forall>st' \<in> set (step st). P st'))"

lemma preservesD: "preserves P step \<Longrightarrow> P st \<Longrightarrow> st' \<in> set (step st) \<Longrightarrow> P st'"
  unfolding preserves_def by blast

lemma rep_states_preserves:
  "preserves P step \<Longrightarrow> P st \<Longrightarrow> st' \<in> set (rep_states N step g mn mx st) \<Longrightarrow> P st'"
proof (induction N step g mn mx st arbitrary: st' rule: rep_states.induct)
  case (1 N step g mn mx st)
  show ?case
  proof (cases "0 < mn")
    case True
    with "1.prems"(3) obtain st1 where st1: "st1 \<in> set (step st)"
      and st': "st' \<in> set (rep_states N step g (mn - 1) (map_option (\<lambda>k. k - 1) mx) st1)"
      by (auto simp: set_rep_states_pos)
    show ?thesis by (rule "1.IH"(1)[OF True st1 "1.prems"(1) preservesD[OF "1.prems"(1,2) st1] st'])
  next
    case False
    then have mn: "mn = 0" by simp
    consider "st' = st" | "st' \<in> set (step st)"
      | st1 where "st1 \<in> set (step st)" "mx \<noteq> Some 0" "fst st < fst st1 \<and> fst st1 \<le> N"
        "st' \<in> set (rep_states N step g 0 (map_option (\<lambda>k. k - 1) mx) st1)"
      using "1.prems"(3) unfolding mn set_rep_states_zero[of N step g mx st] by (auto split: if_splits)
    then show ?thesis
    proof cases
      case (3 st1)
      show ?thesis
        by (rule "1.IH"(2)[OF False 3(2,1,3) "1.prems"(1) preservesD[OF "1.prems"(1,2) 3(1)] 3(4)])
    qed (use "1.prems" preservesD in blast)+
  qed
qed

definition group_in :: "nat \<Rightarrow> mstate \<Rightarrow> bool" where
  "group_in n st \<longleftrightarrow> fst st \<le> n \<and> (case snd st of None \<Rightarrow> True | Some (x, y) \<Rightarrow> x \<le> y \<and> y \<le> n)"

lemma match_rune_snd: "st' \<in> set (match_rune s ok st) \<Longrightarrow> snd st' = snd st"
  by (auto simp: match_rune_def case_prod_beta split: if_splits)

lemma match_rune_group_in: "preserves (group_in (length s)) (match_rune s ok)"
  unfolding preserves_def
proof (intro allI impI ballI)
  fix st st' assume st: "group_in (length s) st" "st' \<in> set (match_rune s ok st)"
  then have "fst st \<le> length s" by (simp add: group_in_def)
  from advancesD[OF match_rune_advances this st(2)] match_rune_snd[OF st(2)] st(1)
  show "group_in (length s) st'" by (simp add: group_in_def)
qed

lemma match_rune_keeps: "preserves (\<lambda>st. snd st \<noteq> None) (match_rune s ok)"
  unfolding preserves_def
proof (intro allI impI ballI)
  fix st st' assume "snd st \<noteq> None" "st' \<in> set (match_rune s ok st)"
  with match_rune_snd[OF this(2)] show "snd st' \<noteq> None" by simp
qed

lemma assert_preserves: "preserves P (\<lambda>st. assert_at (ok st) st)"
  by (auto simp: preserves_def assert_at_def)

lemma preserves_single: "preserves P (\<lambda>st. [st])" "preserves P (\<lambda>st. [])"
  by (simp_all add: preserves_def)

lemma preserves_seq: "preserves P f \<Longrightarrow> preserves P g \<Longrightarrow> preserves P (\<lambda>st. concat (map g (f st)))"
  unfolding preserves_def set_concat set_map by blast

lemma preserves_alt: "preserves P f \<Longrightarrow> preserves P g \<Longrightarrow> preserves P (\<lambda>st. f st @ g st)"
  unfolding preserves_def set_append by blast

lemma preserves_rep: "preserves P f \<Longrightarrow> preserves P (\<lambda>st. rep_states N f g mn mx st)"
  unfolding preserves_def[of P "\<lambda>st. rep_states N f g mn mx st"] using rep_states_preserves by blast

lemmas preserves_intros = assert_preserves preserves_single preserves_seq preserves_alt preserves_rep
  match_rune_group_in match_rune_keeps

lemma match_states_preserves:
  assumes "\<And>ok. preserves P (match_rune s ok)"
    and "\<And>re. preserves P (match_states s re) \<Longrightarrow> preserves P (match_states s (RGroup re))"
  shows "preserves P (match_states s re)"
proof (induction re)
  case (RGroup re)
  then show ?case by (rule assms(2))
next
  case (RRep g mn mx re)
  then show ?case unfolding match_states.simps[abs_def] by (rule preserves_rep)
next
  case (RSeq a b)
  then show ?case unfolding match_states.simps[abs_def] by (rule preserves_seq)
next
  case (RAlt a b)
  then show ?case unfolding match_states.simps[abs_def] by (rule preserves_alt)
qed (unfold match_states.simps[abs_def], (rule preserves_intros assms(1))+)

lemma match_states_group_in: "preserves (group_in (length s)) (match_states s re)"
proof (rule match_states_preserves[OF match_rune_group_in])
  fix re assume "preserves (group_in (length s)) (match_states s re)"
  show "preserves (group_in (length s)) (match_states s (RGroup re))"
    unfolding preserves_def
  proof (intro allI impI ballI)
    fix st st' :: mstate
    assume st: "group_in (length s) st" "st' \<in> set (match_states s (RGroup re) st)"
    then obtain st1 where st1: "st1 \<in> set (match_states s re st)" "st' = (fst st1, Some (fst st, fst st1))" by auto
    from st(1) have "fst st \<le> length s" by (simp add: group_in_def)
    from advancesD[OF match_states_advances this st1(1)] show "group_in (length s) st'"
      by (simp add: st1(2) group_in_def)
  qed
qed

lemma match_states_keeps_group: "preserves (\<lambda>st. snd st \<noteq> None) (match_states s re)"
  by (rule match_states_preserves[OF match_rune_keeps]) (auto simp: preserves_def)

lemma captures_group: "captures re \<Longrightarrow> st' \<in> set (match_states s re st) \<Longrightarrow> snd st' \<noteq> None"
proof (induction re arbitrary: st st')
  case (RSeq a b)
  from RSeq.prems(2) obtain st1 where st1: "st1 \<in> set (match_states s a st)" "st' \<in> set (match_states s b st1)"
    unfolding match_states.simps set_concat set_map by blast
  from RSeq.prems(1) consider "captures a" | "captures b" by auto
  then show ?case
  proof cases
    case 1
    from RSeq.IH(1)[OF 1 st1(1)] show ?thesis by (rule preservesD[OF match_states_keeps_group _ st1(2)])
  next
    case 2
    then show ?thesis by (rule RSeq.IH(2)[OF _ st1(2)])
  qed
next
  case (RAlt a b)
  then show ?case unfolding match_states.simps set_append captures.simps by blast
qed auto

lemma find_from_match: "find_from s re i = Some (a, m) \<Longrightarrow> m \<in> set (match_states s re (a, None)) \<and> a \<le> length s"
proof (induction s re i rule: find_from.induct)
  case (1 s re i)
  have eq: "find_from s re i = (if length s < i then None
      else case match_states s re (i, None) of m # _ \<Rightarrow> Some (i, m)
      | [] \<Rightarrow> if i = length s then None else find_from s re (i + snd (decode_rune (drop i s))))"
    by (rule find_from.simps)
  show ?case
  proof (cases "match_states s re (i, None)")
    case Nil
    with "1.prems" eq have "\<not> length s < i" "i \<noteq> length s"
      "find_from s re (i + snd (decode_rune (drop i s))) = Some (a, m)" by (simp_all split: if_splits)
    with "1.IH" Nil show ?thesis by blast
  next
    case (Cons m' ms)
    with "1.prems" eq show ?thesis by (simp split: if_splits)
  qed
qed

lemma all_matches_match:
  "(a, m) \<in> set (all_matches s re pos prev) \<Longrightarrow> m \<in> set (match_states s re (a, None)) \<and> a \<le> length s"
proof (induction s re pos prev rule: all_matches.induct)
  case (1 s re pos prev)
  show ?case
  proof (cases "length s < pos \<or> find_from s re pos = None")
    case True
    then have "all_matches s re pos prev = []" by (subst all_matches.simps) auto
    with "1.prems" show ?thesis by simp
  next
    case False
    then obtain a' m' where f: "find_from s re pos = Some (a', m')" and le: "\<not> length s < pos"
      by (metis not_None_eq surj_pair)
    define np where "np = (if fst m' = pos
      then (if pos < length s then pos + snd (decode_rune (drop pos s)) else Suc (length s)) else fst m')"
    have "all_matches s re pos prev = (if \<not> (fst m' = pos \<and> int a' = prev)
        then (a', m') # all_matches s re np (int (fst m')) else all_matches s re np (int (fst m')))"
      using f le by (subst all_matches.simps) (simp add: np_def Let_def)
    with "1.prems" consider "a = a'" "m = m'" | "(a, m) \<in> set (all_matches s re np (int (fst m')))"
      by (auto split: if_splits)
    then show ?thesis
    proof cases
      case 1
      then show ?thesis using find_from_match[OF f] by simp
    next
      case 2
      then show ?thesis by (rule "1.IH"[OF le f refl refl np_def])
    qed
  qed
qed

lemma FindAllGroupIndex_captures:
  assumes "captures re" "(x, y) \<in> set (FindAllGroupIndex re s)"
  shows "0 \<le> x \<and> x \<le> y \<and> y \<le> int (length s)"
proof -
  obtain a m where am: "(a, m) \<in> set (all_matches s re 0 (-1))"
    "(x, y) = (case snd m of None \<Rightarrow> (-1, -1) | Some (x, y) \<Rightarrow> (int x, int y))"
    using assms(2) by (auto simp: FindAllGroupIndex_def)
  from all_matches_match[OF am(1)] have m: "m \<in> set (match_states s re (a, None))" "a \<le> length s" by auto
  have "group_in (length s) m"
    by (rule preservesD[OF match_states_group_in _ m(1)]) (simp add: group_in_def m(2))
  moreover have "snd m \<noteq> None" by (rule captures_group[OF assms(1) m(1)])
  ultimately show ?thesis using am(2) by (auto simp: group_in_def split: option.splits)
qed

lemma contextualSecret_span:
  "(x, y) \<in> set (FindAllGroupIndex contextualSecret s) \<Longrightarrow> 0 \<le> x \<and> x \<le> y \<and> y \<le> int (length s)"
  by (rule FindAllGroupIndex_captures) (simp_all add: contextualSecret_def)

section \<open>Entropy\<close>

definition byte_count :: "string \<Rightarrow> char \<Rightarrow> nat" where
  "byte_count s c = length (filter (\<lambda>b. b = c) s)"

definition shannonEntropy :: "string \<Rightarrow> real" where
  "shannonEntropy s = sum_list (map (\<lambda>c. let p = real (byte_count s c) / real (length s) in - (p * log 2 p)) (remdups_first s))"

lemma shannonEntropy_Nil [simp]: "shannonEntropy [] = 0"
  by (simp add: shannonEntropy_def)

lemma shannonEntropy_sum:
  "shannonEntropy s = (\<Sum>c \<in> set s. - (real (byte_count s c) / real (length s) * log 2 (real (byte_count s c) / real (length s))))"
  unfolding shannonEntropy_def Let_def by (subst sum_list_distinct_conv_sum_set) simp_all

lemma byte_count_pos: "c \<in> set s \<Longrightarrow> 0 < byte_count s c"
  by (auto simp: byte_count_def filter_empty_conv)

lemma byte_count_sum: "(\<Sum>c \<in> set s. byte_count s c) = length s"
  unfolding byte_count_def using sum_count_set[of s "set s"] by (simp add: count_list_eq_length_filter eq_commute)

text \<open>
  The entropy of a text lies between 0 and the logarithm of the number of different bytes in it.
\<close>

theorem shannonEntropy_bounds:
  assumes "s \<noteq> []"
  shows "0 \<le> shannonEntropy s \<and> shannonEntropy s \<le> log 2 (real (card (set s)))"
proof -
  define p where "p = (\<lambda>c. real (byte_count s c) / real (length s))"
  define n where "n = real (card (set s))"
  have n: "0 < n" using assms by (simp add: n_def card_gt_0_iff)
  have p: "0 < p c \<and> p c \<le> 1" if "c \<in> set s" for c
    using byte_count_pos[OF that] assms by (simp add: p_def byte_count_def)
  have sum_p: "(\<Sum>c \<in> set s. p c) = 1"
    using byte_count_sum[of s] assms by (simp add: p_def flip: sum_divide_distrib of_nat_sum)
  have le: "- (p c * log 2 (p c)) \<le> p c * log 2 n + (1 / n - p c) / ln 2" if "c \<in> set s" for c
  proof -
    have "ln (1 / (n * p c)) \<le> 1 / (n * p c) - 1" using p[OF that] n by (intro ln_le_minus_one) simp
    then have "p c * ln (1 / (n * p c)) \<le> p c * (1 / (n * p c) - 1)"
      using p[OF that] by (intro mult_left_mono) auto
    also have "\<dots> = 1 / n - p c" using p[OF that] n by (simp add: field_simps)
    finally have "p c * (- ln n - ln (p c)) \<le> 1 / n - p c"
      using p[OF that] n by (simp add: ln_div ln_mult)
    then have "p c * (- ln n - ln (p c)) / ln 2 \<le> (1 / n - p c) / ln 2" by (intro divide_right_mono) auto
    moreover have "p c * (- ln n - ln (p c)) / ln 2 = - (p c * log 2 (p c)) - p c * log 2 n"
      by (simp add: log_def field_simps)
    ultimately show ?thesis by linarith
  qed
  have "shannonEntropy s \<le> (\<Sum>c \<in> set s. p c * log 2 n + (1 / n - p c) / ln 2)"
    unfolding shannonEntropy_sum using le by (intro sum_mono) (simp add: p_def)
  also have "\<dots> = log 2 n"
    using n by (simp add: sum.distrib sum_p sum_subtractf flip: sum_distrib_right sum_divide_distrib)
       (simp add: n_def)
  finally have "shannonEntropy s \<le> log 2 n" .
  moreover have "0 \<le> shannonEntropy s"
    unfolding shannonEntropy_sum
  proof (intro sum_nonneg)
    fix c assume "c \<in> set s"
    from p[OF this] have "p c * log 2 (p c) \<le> 0" by (intro mult_nonneg_nonpos) auto
    then show "0 \<le> - (real (byte_count s c) / real (length s) * log 2 (real (byte_count s c) / real (length s)))"
      by (simp add: p_def)
  qed
  ultimately show ?thesis by (simp add: n_def)
qed

theorem shannonEntropy_bounds_witness: "shannonEntropy ''aab'' \<le> 1"
  using shannonEntropy_bounds[of "''aab''"] by simp

end
