(* ===== verification/GR_Detectors.thy ===== *)
theory GR_Detectors
  imports GR_Policy GR_Keywords GR_Redaction GR_Secrets "HOL-Library.Multiset"
begin

text \<open>
  The built-in detectors of \<open>internal/engine/evaluator.go\<close>: \<open>evaluateDetector\<close> and the detector
  kinds it dispatches to. A detector returns findings and replacements; \<open>None\<close> is a panic (a nil
  section dereferenced). \<open>json.Marshal\<close> of a whole request is used only for its length, when the
  caller gave no encoded size; that length is an argument (\<open>lib_marshalled\<close>).
\<close>

record library =
  lib_unicode :: unicode_tables
  lib_marshalled :: "evaluation_request \<Rightarrow> int"

type_synonym detector_output = "finding list \<times> replacement list"

section \<open>Findings\<close>

definition defaultString :: "string \<Rightarrow> string \<Rightarrow> string" where
  "defaultString v fallback = (if v = '''' then fallback else v)"

definition new_finding :: "string \<Rightarrow> string \<Rightarrow> string \<Rightarrow> string \<Rightarrow> int \<Rightarrow> int \<Rightarrow> finding" where
  "new_finding ident category severity path s e = \<lparr>fi_DetectorID = ident, fi_Category = category,
     fi_Confidence = 1, fi_Severity = severity,
     fi_Locations = [\<lparr>loc_Path = path, loc_Start = s, loc_End = e\<rparr>], fi_Attributes = []\<rparr>"

definition attributeFinding :: "string \<Rightarrow> string \<Rightarrow> string \<Rightarrow> string \<Rightarrow> (string \<times> json) list \<Rightarrow> finding" where
  "attributeFinding ident category severity path attributes = \<lparr>fi_DetectorID = ident,
     fi_Category = category, fi_Confidence = 1, fi_Severity = severity, fi_Locations = [],
     fi_Attributes = (if path \<noteq> '''' then AList.update ''path'' (JStr path) attributes else attributes)\<rparr>"

definition json_int :: "int \<Rightarrow> json" where
  "json_int k = JNum (of_int k)"

section \<open>Request limits\<close>

definition limit_finding :: "detector \<Rightarrow> request_limits \<Rightarrow> string \<Rightarrow> string \<Rightarrow> int \<Rightarrow> int \<Rightarrow> finding list" where
  "limit_finding d l name path actual limit = (if 0 < limit \<and> limit < actual then
     [attributeFinding (det_ID d) (defaultString (rl_Category l) ''request.limit'') (rl_Severity l) path
        [(''limit'', JStr name), (''actual'', json_int actual), (''maximum'', json_int limit)]]
   else [])"

definition request_bytes :: "library \<Rightarrow> evaluation_request \<Rightarrow> int" where
  "request_bytes lib req = (if req_EncodedBytes req = 0 then lib_marshalled lib req else req_EncodedBytes req)"

definition estimated_tokens :: "library \<Rightarrow> evaluation_request \<Rightarrow> int" where
  "estimated_tokens lib req = go_div (
     sum_list (map (\<lambda>(_, v). int (length v)) (visitStrings (lib_unicode lib) (req_Content req))) + 3) 4"

definition mime_findings :: "library \<Rightarrow> detector \<Rightarrow> request_limits \<Rightarrow> content_envelope \<Rightarrow> finding list" where
  "mime_findings lib d l c = (if rl_AllowedMIMETypes l = [] then [] else
     map (\<lambda>(path, v). attributeFinding (det_ID d) (defaultString (rl_Category l) ''request.limit'')
         (rl_Severity l) path [(''limit'', JStr ''allowed_mime_types'')])
       (filter (\<lambda>(path, v). \<not> contains (lib_unicode lib) (rl_AllowedMIMETypes l) v False) (contentMIMETypes c)))"

definition evaluateRequestLimits :: "library \<Rightarrow> detector \<Rightarrow> request_limits \<Rightarrow> evaluation_request \<Rightarrow> finding list" where
  "evaluateRequestLimits lib d l req = (let c = req_Content req; add = limit_finding d l in
     add ''request_bytes'' '''' (request_bytes lib req) (rl_MaxRequestBytes l) @
     add ''messages'' ''content.messages'' (int (length (ce_Messages c))) (rl_MaxMessages l) @
     concat (map (\<lambda>(i, m). add ''message_bytes'' (message_path i) (int (length (msg_Content m))) (rl_MaxMessageBytes l))
       (List.enumerate 0 (ce_Messages c))) @
     add ''tools'' ''content.data.tools'' (collectionLength (obj_get (ce_Data c) ''tools'')) (rl_MaxTools l) @
     add ''attachments'' ''content.data.attachments''
       (collectionLength (obj_get (ce_Data c) ''attachments'')) (rl_MaxAttachments l) @
     add ''estimated_tokens'' ''content'' (estimated_tokens lib req) (rl_MaxEstimatedTokens l) @
     mime_findings lib d l c)"

section \<open>Allow and deny lists\<close>

definition list_rule :: "unicode_tables \<Rightarrow> allow_deny \<Rightarrow> string \<Rightarrow> string" where
  "list_rule u l v = (if contains u (ad_Deny l) v (ad_CaseSensitive l) then ''deny''
     else if ad_Allow l \<noteq> [] \<and> \<not> contains u (ad_Allow l) v (ad_CaseSensitive l) then ''allow'' else '''')"

definition evaluateAllowDeny :: "library \<Rightarrow> detector \<Rightarrow> allow_deny \<Rightarrow> evaluation_request \<Rightarrow> finding list" where
  "evaluateAllowDeny lib d l req = concat (map (\<lambda>(path, v).
     let rule = list_rule (lib_unicode lib) l v in
     if rule \<noteq> '''' then [attributeFinding (det_ID d) (defaultString (ad_Category l) ''request.list'')
       (ad_Severity l) path [(''selector'', JStr (ad_Selector l)), (''rule'', JStr rule)]] else [])
     (selectorValues (ad_Selector l) req))"

section \<open>JSON Schema\<close>

definition leaf_key :: "validation_error \<Rightarrow> string \<times> string" where
  "leaf_key e = (ve_instance e, ve_keyword e)"

function validationLeaves :: "validation_error \<Rightarrow> validation_error list" where
  "validationLeaves (ValidationError inst kw causes) =
     (if causes = [] then [ValidationError inst kw causes]
      else sort_key leaf_key (concat (map validationLeaves causes)))"
  by pat_completeness auto
termination
  by (relation "measure size") (auto simp: less_Suc_eq_le size_list_estimation')

declare validationLeaves.simps [simp del]

definition schema_findings :: "unicode_tables \<Rightarrow> detector \<Rightarrow> json_schema \<Rightarrow> validation_result \<Rightarrow> finding list" where
  "schema_findings u d l res = (let add = attributeFinding (det_ID d) (defaultString (js_Category l) ''schema.invalid'') (js_Severity l) in
     case res of Valid \<Rightarrow> []
     | OtherError \<Rightarrow> [add (js_Target l) []]
     | Invalid e \<Rightarrow> map (\<lambda>leaf. add (js_Target l @ pointerJSONPath u (ve_instance leaf))
         [(''instance_location'', JStr (ve_instance leaf)), (''keyword_location'', JStr (ve_keyword leaf))])
         (validationLeaves e))"

definition evaluateJSONSchema :: "library \<Rightarrow> compiled_detector \<Rightarrow> json_schema \<Rightarrow> evaluation_request \<Rightarrow> finding list option" where
  "evaluateJSONSchema lib cd l req = (case cd_JSONSchema cd of None \<Rightarrow> None
     | Some validate \<Rightarrow> Some (schema_findings (lib_unicode lib) (cd_Config cd) l (validate (schemaTarget (js_Target l) req))))"

section \<open>Secrets\<close>

definition secret_key :: "string \<Rightarrow> int \<Rightarrow> int \<Rightarrow> string" where
  "secret_key path s e = path @ '':'' @ show_int s @ '':'' @ show_int e"

type_synonym secret_hit = "string \<times> string \<times> string \<times> span"

fun drop_seen :: "string list \<Rightarrow> secret_hit list \<Rightarrow> secret_hit list" where
  "drop_seen seen [] = []"
| "drop_seen seen ((path, typ, pid, s, e) # hits) = (let key = secret_key path s e in
     if key \<in> set seen then drop_seen seen hits else (path, typ, pid, s, e) # drop_seen (key # seen) hits)"

definition secret_enabled :: "secrets_config \<Rightarrow> string \<Rightarrow> bool" where
  "secret_enabled cfg typ \<longleftrightarrow> sec_Types cfg = [] \<or> typ \<in> set (sec_Types cfg)"

definition min_length :: "secrets_config \<Rightarrow> int" where
  "min_length cfg = (if sec_MinEntropyLength cfg = 0 then 20 else sec_MinEntropyLength cfg)"

definition min_entropy :: "secrets_config \<Rightarrow> real" where
  "min_entropy cfg = (if sec_MinEntropy cfg = 0 then 4 else sec_MinEntropy cfg)"

definition pattern_hits :: "secrets_config \<Rightarrow> string \<times> string \<Rightarrow> secret_hit list" where
  "pattern_hits cfg pv = concat (map (\<lambda>(typ, pid, re). if secret_enabled cfg typ
     then map (\<lambda>sp. (fst pv, typ, pid, sp)) (FindAllStringIndex re (snd pv)) else []) secretPatterns)"

text \<open>\<open>value[start:end]\<close> is read only when the span is long enough; out of range it panics.\<close>

definition contextual_hit :: "secrets_config \<Rightarrow> string \<times> string \<Rightarrow> span \<Rightarrow> secret_hit list option" where
  "contextual_hit cfg pv sp = (case sp of (s, e) \<Rightarrow>
     if e - s < min_length cfg then Some []
     else if 0 \<le> s \<and> s \<le> e \<and> e \<le> int (length (snd pv)) then
       Some (if min_entropy cfg \<le> shannonEntropy (take (nat (e - s)) (drop (nat s) (snd pv)))
         then [(fst pv, ''contextual_high_entropy'', ''contextual-entropy'', s, e)] else [])
     else None)"

definition contextual_hits :: "secrets_config \<Rightarrow> string \<times> string \<Rightarrow> secret_hit list option" where
  "contextual_hits cfg pv = (if secret_enabled cfg ''contextual_high_entropy''
     then map_option concat (opt_map (contextual_hit cfg pv) (FindAllGroupIndex contextualSecret (snd pv)))
     else Some [])"

definition secret_hits :: "secrets_config \<Rightarrow> string \<times> string \<Rightarrow> secret_hit list option" where
  "secret_hits cfg pv = map_option (\<lambda>more. pattern_hits cfg pv @ more) (contextual_hits cfg pv)"

definition secret_output :: "detector \<Rightarrow> secrets_config \<Rightarrow> secret_hit \<Rightarrow> finding \<times> replacement" where
  "secret_output d cfg hit = (case hit of (path, typ, pid, s, e) \<Rightarrow>
     ((new_finding (det_ID d) (defaultString (sec_CategoryPrefix cfg) ''secret'' @ ''.'' @ typ) (sec_Severity cfg) path s e)
        \<lparr>fi_Attributes := [(''secret_type'', JStr typ), (''pattern_id'', JStr pid)]\<rparr>,
      \<lparr>rp_path = path, rp_value = defaultString (sec_Replacement cfg) ''<SECRET>'', rp_start = s, rp_end = e\<rparr>))"

definition unzip_output :: "(finding \<times> replacement) list \<Rightarrow> detector_output" where
  "unzip_output hits = (map fst hits, map snd hits)"

definition evaluateSecrets :: "library \<Rightarrow> detector \<Rightarrow> secrets_config \<Rightarrow> content_envelope \<Rightarrow> detector_output option" where
  "evaluateSecrets lib d cfg c = map_option (\<lambda>hits. unzip_output (map (secret_output d cfg) (drop_seen [] (concat hits))))
     (opt_map (secret_hits cfg) (visitStrings (lib_unicode lib) c))"

section \<open>\<open>evaluateDetector\<close>\<close>

definition text_output :: "string \<Rightarrow> string \<Rightarrow> string \<Rightarrow> string \<Rightarrow> string \<Rightarrow> span \<Rightarrow> finding \<times> replacement" where
  "text_output ident category severity repl path sp = (case sp of (s, e) \<Rightarrow>
     (new_finding ident category severity path s e,
      \<lparr>rp_path = path, rp_value = (if repl = '''' then ''<REDACTED>'' else repl), rp_start = s, rp_end = e\<rparr>))"

definition text_hits :: "library \<Rightarrow> compiled_detector \<Rightarrow> string \<times> string \<Rightarrow> (finding \<times> replacement) list option" where
  "text_hits lib cd pv = (let d = cd_Config cd in
     case cd_Regex cd of Some re \<Rightarrow> (let spans = FindAllStringIndex re (snd pv) in
       case det_Regex d of Some cfg \<Rightarrow>
         Some (map (text_output (det_ID d) (rx_Category cfg) (rx_Severity cfg) (rx_Replacement cfg) (fst pv)) spans)
       | None \<Rightarrow> if spans = [] then Some [] else None)
     | None \<Rightarrow> (case det_Keywords d of None \<Rightarrow> None
       | Some cfg \<Rightarrow> Some (concat (map (\<lambda>keyword.
           map (text_output (det_ID d) (kw_Category cfg) (kw_Severity cfg) (kw_Replacement cfg) (fst pv))
             (MatchKeyword (lib_unicode lib) (snd pv) keyword (kw_CaseSensitive cfg))) (kw_Values cfg)))))"

definition evaluateDetector :: "library \<Rightarrow> compiled_detector \<Rightarrow> evaluation_request \<Rightarrow> detector_output option" where
  "evaluateDetector lib cd req = (let d = cd_Config cd in
     case det_RequestLimits d of Some l \<Rightarrow> Some (evaluateRequestLimits lib d l req, [])
     | None \<Rightarrow> (case det_AllowDeny d of Some l \<Rightarrow> Some (evaluateAllowDeny lib d l req, [])
     | None \<Rightarrow> (case det_JSONSchema d of Some l \<Rightarrow> map_option (\<lambda>fs. (fs, [])) (evaluateJSONSchema lib cd l req)
     | None \<Rightarrow> (case det_Secrets d of Some cfg \<Rightarrow> evaluateSecrets lib d cfg (req_Content req)
     | None \<Rightarrow> map_option (\<lambda>hits. unzip_output (concat hits))
         (opt_map (text_hits lib cd) (visitText (req_Content req)))))))"

section \<open>What a detector returns\<close>

definition finding_spans :: "finding \<Rightarrow> (string \<times> int \<times> int) list" where
  "finding_spans f = map (\<lambda>l. (loc_Path l, loc_Start l, loc_End l)) (fi_Locations f)"

definition rp_span :: "replacement \<Rightarrow> string \<times> int \<times> int" where
  "rp_span r = (rp_path r, rp_start r, rp_end r)"

text \<open>Detectors whose findings are spans of text, which a redacting policy may use.\<close>

definition redactable :: "detector \<Rightarrow> bool" where
  "redactable d \<longleftrightarrow> det_RequestLimits d = None \<and> det_AllowDeny d = None \<and> det_JSONSchema d = None"

text \<open>
  The categories and severities a detector may report: those of its configuration, the default
  category of its kind, or the prefix of a secret detector with one of the known types. A finding
  is labelled by its detector when it carries only these.
\<close>

definition configured_categories :: "detector \<Rightarrow> string list" where
  "configured_categories d =
     (case det_RequestLimits d of Some l \<Rightarrow> [defaultString (rl_Category l) ''request.limit''] | None \<Rightarrow> []) @
     (case det_AllowDeny d of Some l \<Rightarrow> [defaultString (ad_Category l) ''request.list''] | None \<Rightarrow> []) @
     (case det_JSONSchema d of Some l \<Rightarrow> [defaultString (js_Category l) ''schema.invalid''] | None \<Rightarrow> []) @
     (case det_Secrets d of Some c \<Rightarrow> map (\<lambda>typ. defaultString (sec_CategoryPrefix c) ''secret'' @ ''.'' @ typ) secretTypes | None \<Rightarrow> []) @
     (case det_Regex d of Some c \<Rightarrow> [rx_Category c] | None \<Rightarrow> []) @
     (case det_Keywords d of Some c \<Rightarrow> [kw_Category c] | None \<Rightarrow> [])"

definition configured_severities :: "detector \<Rightarrow> string list" where
  "configured_severities d =
     (case det_RequestLimits d of Some l \<Rightarrow> [rl_Severity l] | None \<Rightarrow> []) @
     (case det_AllowDeny d of Some l \<Rightarrow> [ad_Severity l] | None \<Rightarrow> []) @
     (case det_JSONSchema d of Some l \<Rightarrow> [js_Severity l] | None \<Rightarrow> []) @
     (case det_Secrets d of Some c \<Rightarrow> [sec_Severity c] | None \<Rightarrow> []) @
     (case det_Regex d of Some c \<Rightarrow> [rx_Severity c] | None \<Rightarrow> []) @
     (case det_Keywords d of Some c \<Rightarrow> [kw_Severity c] | None \<Rightarrow> [])"

definition labelled :: "detector \<Rightarrow> finding \<Rightarrow> bool" where
  "labelled d f \<longleftrightarrow> fi_DetectorID f = det_ID d \<and> fi_Category f \<in> set (configured_categories d) \<and>
     fi_Severity f \<in> set (configured_severities d) \<and> fi_Confidence f = 1"

lemmas label_defs = labelled_def configured_categories_def configured_severities_def

definition good_hit :: "detector \<Rightarrow> finding \<times> replacement \<Rightarrow> bool" where
  "good_hit d h \<longleftrightarrow> labelled d (fst h) \<and> finding_spans (fst h) = [rp_span (snd h)] \<and> wf_replacement (snd h)"

lemma good_text_output:
  assumes "0 \<le> s" "s \<le> e" "c \<in> set (configured_categories d)" "v \<in> set (configured_severities d)"
  shows "good_hit d (text_output (det_ID d) c v rp path (s, e))"
  using assms by (simp add: good_hit_def labelled_def text_output_def new_finding_def finding_spans_def rp_span_def wf_replacement_def)

lemma good_secret_output:
  assumes "0 \<le> s" "s \<le> e" "typ \<in> set secretTypes" "det_Secrets d = Some cfg"
  shows "good_hit d (secret_output d cfg (path, typ, pid, s, e))"
  using assms by (simp add: good_hit_def label_defs secret_output_def new_finding_def finding_spans_def rp_span_def wf_replacement_def)

lemma text_hits_good:
  assumes "text_hits lib cd pv = Some hs" "h \<in> set hs"
  shows "good_hit (cd_Config cd) h"
proof -
  let ?d = "cd_Config cd"
  have rx: "good_hit ?d (text_output (det_ID ?d) (rx_Category cfg) (rx_Severity cfg) rp path sp)"
    if "sp \<in> set (FindAllStringIndex re t)" "det_Regex ?d = Some cfg" for cfg rp path sp re t
    using that regex_finder.in_bounds[of "fst sp" "snd sp" re t] good_text_output[of "fst sp" "snd sp" _ ?d]
    by (simp add: configured_categories_def configured_severities_def)
  have kw: "good_hit ?d (text_output (det_ID ?d) (kw_Category cfg) (kw_Severity cfg) rp path sp)"
    if "sp \<in> set (MatchKeyword u t k cs)" "det_Keywords ?d = Some cfg" for cfg rp path sp u t k cs
    using that keyword_finder.in_bounds[of "fst sp" "snd sp" u t k cs] good_text_output[of "fst sp" "snd sp" _ ?d]
    by (simp add: configured_categories_def configured_severities_def)
  show ?thesis
    using assms rx kw by (auto simp: text_hits_def Let_def split: option.splits if_splits)
qed

lemma opt_map_mem: "opt_map f xs = Some ys \<Longrightarrow> y \<in> set ys \<Longrightarrow> \<exists>x \<in> set xs. f x = Some y"
  by (induction xs arbitrary: ys) (auto split: option.splits)

definition hit_span_ok :: "secret_hit \<Rightarrow> bool" where
  "hit_span_ok h \<longleftrightarrow> (case h of (path, typ, pid, s, e) \<Rightarrow> 0 \<le> s \<and> s \<le> e \<and> typ \<in> set secretTypes)"

lemma contextual_hit_total:
  assumes "sp \<in> set (FindAllGroupIndex contextualSecret (snd pv))"
  shows "\<exists>hs. contextual_hit cfg pv sp = Some hs \<and> list_all hit_span_ok hs"
proof -
  obtain s e where sp: "sp = (s, e)" by (cases sp)
  with assms contextualSecret_span have "0 \<le> s \<and> s \<le> e \<and> e \<le> int (length (snd pv))" by blast
  then show ?thesis by (simp add: contextual_hit_def sp hit_span_ok_def secretTypes_def)
qed

lemma contextual_hits_total: "\<exists>hs. contextual_hits cfg pv = Some hs \<and> list_all hit_span_ok hs"
proof -
  obtain ys where ys: "opt_map (contextual_hit cfg pv) (FindAllGroupIndex contextualSecret (snd pv)) = Some ys"
    using opt_map_total[of "FindAllGroupIndex contextualSecret (snd pv)" "contextual_hit cfg pv"] contextual_hit_total by metis
  have "list_all hit_span_ok hs" if "hs \<in> set ys" for hs
  proof -
    from opt_map_mem[OF ys that] obtain sp where
      "sp \<in> set (FindAllGroupIndex contextualSecret (snd pv))" "contextual_hit cfg pv sp = Some hs" by blast
    with contextual_hit_total[of sp pv cfg] show ?thesis by simp
  qed
  with ys show ?thesis by (simp add: contextual_hits_def list_all_iff)
qed

lemma pattern_types: "(typ, pid, re) \<in> set secretPatterns \<Longrightarrow> typ \<in> set secretTypes"
  by (auto simp: secretPatterns_def secretTypes_def)

lemma pattern_hits_ok: "list_all hit_span_ok (pattern_hits cfg pv)"
  using regex_finder.in_bounds
  by (fastforce simp: pattern_hits_def list_all_iff hit_span_ok_def split: if_splits dest: pattern_types)

lemma secret_hits_total: "\<exists>hs. secret_hits cfg pv = Some hs \<and> list_all hit_span_ok hs"
  using contextual_hits_total[of cfg pv] pattern_hits_ok[of cfg pv] by (auto simp: secret_hits_def)

lemma drop_seen_subset: "set (drop_seen seen hits) \<subseteq> set hits"
  by (induction seen hits rule: drop_seen.induct) (auto simp: Let_def)

lemma evaluateSecrets_good:
  assumes "det_Secrets d = Some cfg"
  shows "\<exists>hs. evaluateSecrets lib d cfg c = Some (unzip_output hs) \<and> list_all (good_hit d) hs"
proof -
  obtain hss where hss: "opt_map (secret_hits cfg) (visitStrings (lib_unicode lib) c) = Some hss"
    using opt_map_total[of _ "secret_hits cfg"] secret_hits_total by blast
  have "hit_span_ok h" if h: "h \<in> set (drop_seen [] (concat hss))" for h
  proof -
    from h drop_seen_subset obtain hs where hs: "hs \<in> set hss" "h \<in> set hs" by fastforce
    from opt_map_mem[OF hss hs(1)] obtain pv where "secret_hits cfg pv = Some hs" by blast
    with secret_hits_total[of cfg pv] hs(2) show ?thesis by (auto simp: list_all_iff)
  qed
  then have "list_all (good_hit d) (map (secret_output d cfg) (drop_seen [] (concat hss)))"
    by (auto simp: list_all_iff hit_span_ok_def intro: good_secret_output assms)
  with hss show ?thesis unfolding evaluateSecrets_def by (intro exI[of _ "map (secret_output d cfg) (drop_seen [] (concat hss))"]) simp
qed

lemma evaluateDetector_redactable:
  assumes "redactable (cd_Config cd)" "evaluateDetector lib cd req = Some out"
  obtains hs where "out = unzip_output hs" "list_all (good_hit (cd_Config cd)) hs"
proof (cases "det_Secrets (cd_Config cd)")
  case (Some cfg)
  with assms evaluateSecrets_good[OF Some, of lib "req_Content req"] that show thesis
    by (auto simp: evaluateDetector_def redactable_def Let_def)
next
  case None
  with assms obtain hss where hss: "opt_map (text_hits lib cd) (visitText (req_Content req)) = Some hss"
    "out = unzip_output (concat hss)" by (auto simp: evaluateDetector_def redactable_def Let_def)
  have "good_hit (cd_Config cd) h" if "h \<in> set (concat hss)" for h
  proof -
    from that obtain hs where hs: "hs \<in> set hss" "h \<in> set hs" by auto
    from opt_map_mem[OF hss(1) hs(1)] obtain pv where "text_hits lib cd pv = Some hs" by blast
    then show ?thesis by (rule text_hits_good[OF _ hs(2)])
  qed
  with hss(2) show thesis by (intro that[of "concat hss"]) (simp_all add: list_all_iff)
qed

lemma attributeFinding_labels [simp]: "fi_DetectorID (attributeFinding i c v p a) = i" "fi_Category (attributeFinding i c v p a) = c"
  "fi_Severity (attributeFinding i c v p a) = v" "fi_Confidence (attributeFinding i c v p a) = 1"
  by (simp_all add: attributeFinding_def)

lemma evaluateRequestLimits_labelled:
  "det_RequestLimits d = Some l \<Longrightarrow> f \<in> set (evaluateRequestLimits lib d l req) \<Longrightarrow> labelled d f"
  by (auto simp: evaluateRequestLimits_def limit_finding_def mime_findings_def label_defs Let_def split: if_splits)

lemma evaluateAllowDeny_labelled:
  "det_AllowDeny d = Some l \<Longrightarrow> f \<in> set (evaluateAllowDeny lib d l req) \<Longrightarrow> labelled d f"
  by (auto simp: evaluateAllowDeny_def label_defs Let_def split: if_splits)

lemma schema_findings_labelled:
  "det_JSONSchema d = Some l \<Longrightarrow> f \<in> set (schema_findings u d l res) \<Longrightarrow> labelled d f"
  by (auto simp: schema_findings_def label_defs Let_def split: validation_result.splits)

lemma evaluateDetector_attribute:
  assumes "\<not> redactable (cd_Config cd)" "evaluateDetector lib cd req = Some (fs, rs)"
  shows "rs = [] \<and> (\<forall>f \<in> set fs. labelled (cd_Config cd) f)"
  using assms evaluateRequestLimits_labelled evaluateAllowDeny_labelled schema_findings_labelled
  by (auto simp: evaluateDetector_def evaluateJSONSchema_def redactable_def Let_def split: option.splits)

lemma evaluateDetector_total:
  assumes "wf_compiled_detector p cd"
  shows "\<exists>fs rs. evaluateDetector lib cd req = Some (fs, rs)"
proof -
  have one: "countConfigured (cd_Config cd) = 1" using assms by (simp add: wf_defs Let_def)
  have hits: "\<exists>hs. text_hits lib cd pv = Some hs"
    if "redactable (cd_Config cd)" "det_Secrets (cd_Config cd) = None" for pv
    using that one assms by (auto simp: text_hits_def redactable_def countConfigured_def wf_defs Let_def split: option.splits if_splits)
  have run: "\<exists>out. evaluateDetector lib cd req = Some out"
  proof (cases "redactable (cd_Config cd)")
    case False
    have "det_JSONSchema (cd_Config cd) = Some l \<Longrightarrow> \<exists>validate. cd_JSONSchema cd = Some validate" for l
      using assms by (auto simp: wf_defs Let_def)
    with False show ?thesis
      by (auto simp: evaluateDetector_def evaluateJSONSchema_def redactable_def Let_def split: option.split)
  next
    case True
    show ?thesis
    proof (cases "det_Secrets (cd_Config cd)")
      case None
      obtain hss where "opt_map (text_hits lib cd) (visitText (req_Content req)) = Some hss"
        using opt_map_total[of "visitText (req_Content req)" "text_hits lib cd"] hits[OF True None] by auto
      with True None show ?thesis by (simp add: evaluateDetector_def redactable_def Let_def)
    next
      case (Some cfg)
      obtain hs where "evaluateSecrets lib (cd_Config cd) cfg (req_Content req) = Some (unzip_output hs)"
        using evaluateSecrets_good[OF Some] by blast
      with True Some show ?thesis by (simp add: evaluateDetector_def redactable_def Let_def)
    qed
  qed
  then show ?thesis by (metis surj_pair)
qed

section \<open>The interface of an executor\<close>

text \<open>
  What the evaluator relies on: a compiled detector runs without a panic, its findings carry its
  identifier and only configured labels, its replacements are well formed, and a detector of spans returns one replacement for
  each finding, at the finding's location.
\<close>

locale detector_executor =
  fixes run :: "compiled_detector \<Rightarrow> evaluation_request \<Rightarrow> detector_output option"
  assumes total: "wf_compiled_detector p cd \<Longrightarrow> \<exists>fs rs. run cd req = Some (fs, rs)"
    and owned: "run cd req = Some (fs, rs) \<Longrightarrow> f \<in> set fs \<Longrightarrow> labelled (cd_Config cd) f"
    and placed: "run cd req = Some (fs, rs) \<Longrightarrow> list_all wf_replacement rs"
    and paired: "run cd req = Some (fs, rs) \<Longrightarrow> redactable (cd_Config cd) \<Longrightarrow>
      map finding_spans fs = map (\<lambda>r. [rp_span r]) rs"
begin

lemma one_each: "run cd req = Some (fs, rs) \<Longrightarrow> redactable (cd_Config cd) \<Longrightarrow> length rs = length fs"
  using paired map_eq_imp_length_eq by metis

lemma found_replaced: "run cd req = Some (fs, rs) \<Longrightarrow> redactable (cd_Config cd) \<Longrightarrow> fs \<noteq> [] \<Longrightarrow> rs \<noteq> []"
  using one_each by fastforce

lemma redacting_policy:
  "wf_compiled_detector p cd \<Longrightarrow> spec_Action (pol_Spec p) = ActionRedact \<Longrightarrow> redactable (cd_Config cd)"
  by (simp add: wf_defs redactable_def Let_def)

end

interpretation builtin: detector_executor "evaluateDetector lib" for lib
proof (unfold_locales, goal_cases)
  case (1 p cd req)
  then show ?case by (rule evaluateDetector_total)
next
  case (2 cd req fs rs f)
  show ?case
  proof (cases "redactable (cd_Config cd)")
    case True
    from evaluateDetector_redactable[OF True 2(1)] obtain hs where
      "(fs, rs) = unzip_output hs" "list_all (good_hit (cd_Config cd)) hs" .
    with 2(2) show ?thesis by (auto simp: unzip_output_def list_all_iff good_hit_def)
  qed (use 2 evaluateDetector_attribute in blast)
next
  case (3 cd req fs rs)
  show ?case
  proof (cases "redactable (cd_Config cd)")
    case True
    from evaluateDetector_redactable[OF True 3] obtain hs where
      "(fs, rs) = unzip_output hs" "list_all (good_hit (cd_Config cd)) hs" .
    then show ?thesis by (auto simp: unzip_output_def list_all_iff good_hit_def)
  next
    case False
    from evaluateDetector_attribute[OF this 3] show ?thesis by simp
  qed
next
  case (4 cd req fs rs)
  from evaluateDetector_redactable[OF 4(2,1)] obtain hs where
    "(fs, rs) = unzip_output hs" "list_all (good_hit (cd_Config cd)) hs" .
  then show ?case by (auto simp: unzip_output_def list_all_iff good_hit_def)
qed

text \<open>
  C17. A detector that the policy compiler accepted runs on every request without a panic; each of
  its replacements is well formed, each of its findings carries its identifier, confidence 1 and a
  category and severity of its configuration, and under a redacting policy it returns exactly one
  replacement for each finding, at the location of the finding.
\<close>

theorem evaluateDetector_contract:
  assumes "wf_compiled_detector p cd"
  shows "\<exists>fs rs. evaluateDetector lib cd req = Some (fs, rs) \<and> list_all wf_replacement rs \<and>
    (\<forall>f \<in> set fs. labelled (cd_Config cd) f) \<and>
    (spec_Action (pol_Spec p) = ActionRedact \<longrightarrow> map finding_spans fs = map (\<lambda>r. [rp_span r]) rs)"
proof -
  obtain fs rs where run: "evaluateDetector lib cd req = Some (fs, rs)"
    using builtin.total[OF assms] by blast
  from builtin.placed[OF run] builtin.owned[OF run] builtin.paired[OF run] builtin.redacting_policy[OF assms]
  show ?thesis using run by blast
qed

section \<open>Request limits and lists\<close>

lemma message_path_inject [simp]: "message_path i = message_path j \<longleftrightarrow> i = j"
  by (simp add: message_path_def)













definition list_permits :: "unicode_tables \<Rightarrow> allow_deny \<Rightarrow> string \<Rightarrow> bool" where
  "list_permits u l v \<longleftrightarrow> \<not> contains u (ad_Deny l) v (ad_CaseSensitive l) \<and>
     (ad_Allow l = [] \<or> contains u (ad_Allow l) v (ad_CaseSensitive l))"

lemma list_rule_Nil: "list_rule u l v = [] \<longleftrightarrow> list_permits u l v"
  by (simp add: list_rule_def list_permits_def)

text \<open>
  The allow/deny detector reports the selected values that are denied, or that a nonempty allow
  list omits, in order and once each; deny takes precedence over allow in the rule it names.
\<close>

theorem evaluateAllowDeny_spec:
  "evaluateAllowDeny lib d l req = map (\<lambda>(path, v).
      attributeFinding (det_ID d) (defaultString (ad_Category l) ''request.list'') (ad_Severity l) path
        [(''selector'', JStr (ad_Selector l)),
         (''rule'', JStr (if contains (lib_unicode lib) (ad_Deny l) v (ad_CaseSensitive l) then ''deny'' else ''allow''))])
    (filter (\<lambda>(path, v). \<not> list_permits (lib_unicode lib) l v) (selectorValues (ad_Selector l) req))"
proof -
  have "concat (map (\<lambda>(path, v). let rule = list_rule u l v in if rule \<noteq> [] then [g path rule] else []) xs) =
      map (\<lambda>(path, v). g path (if contains u (ad_Deny l) v (ad_CaseSensitive l) then ''deny'' else ''allow''))
        (filter (\<lambda>(path, v). \<not> list_permits u l v) xs)" for u xs and g :: "string \<Rightarrow> string \<Rightarrow> finding"
    by (induction xs) (auto simp: list_rule_def list_permits_def Let_def)
  then show ?thesis by (simp add: evaluateAllowDeny_def)
qed

section \<open>The leaves of a validation error\<close>

text \<open>The leaves of the tree of causes, left to right.\<close>

function leaves :: "validation_error \<Rightarrow> validation_error list" where
  "leaves (ValidationError inst kw causes) =
     (if causes = [] then [ValidationError inst kw causes] else concat (map leaves causes))"
  by pat_completeness auto
termination
  by (relation "measure size") (auto simp: less_Suc_eq_le size_list_estimation')

declare leaves.simps [simp del]

lemma filter_key_sort: "filter (\<lambda>x. f k = f x) (sort_key f xs) = filter (\<lambda>x. f k = f x) xs"
  using sort_key_stable[of f "f k" xs] by (simp only: eq_commute[of "f k"])

lemma mset_concat_sorts: "mset (concat (map (sort_key f) xss)) = mset (concat xss)"
  by (induction xss) auto

lemma sort_key_concat: "sort_key f (concat (map (sort_key f) xss)) = sort_key f (concat xss)"
proof (rule properties_for_sort_key)
  show "mset (sort_key f (concat xss)) = mset (concat (map (sort_key f) xss))"
    by (simp add: mset_concat_sorts del: mset_concat)
  show "filter (\<lambda>x. f k = f x) (sort_key f (concat xss)) = filter (\<lambda>x. f k = f x) (concat (map (sort_key f) xss))" for k
    by (simp add: filter_key_sort filter_concat o_def)
qed simp

text \<open>
  C26. Sorting the leaves again at every level of the tree of causes gives the same list as sorting
  all of them once: the order of the findings is by instance location, then keyword location, and
  leaves that agree on both keep the order the validator reported them in.
\<close>

theorem validationLeaves_one_sort: "validationLeaves e = sort_key leaf_key (leaves e)"
proof (induction e rule: validationLeaves.induct)
  case (1 inst kw causes)
  show ?case
  proof (cases "causes = []")
    case False
    have *: "map validationLeaves causes = map (sort_key leaf_key) (map leaves causes)"
      using 1[OF False] by simp
    have "validationLeaves (ValidationError inst kw causes) =
        sort_key leaf_key (concat (map (sort_key leaf_key) (map leaves causes)))"
      unfolding *[symmetric] using False by (subst validationLeaves.simps) simp
    also have "\<dots> = sort_key leaf_key (concat (map leaves causes))" by (rule sort_key_concat)
    finally show ?thesis using False by (subst leaves.simps) simp
  qed (simp add: validationLeaves.simps leaves.simps)
qed

section \<open>Secrets are reported once\<close>

lemma show_int_no_colon: "CHR '':'' \<notin> set (show_int k)"
  using show_nat_bytes[of "CHR '':''"] by (auto simp: show_int_def)

lemma takeWhile_to: "c \<notin> set ys \<Longrightarrow> takeWhile (\<lambda>x. x \<noteq> c) (ys @ c # zs) = ys"
  by (induction ys) auto

lemma last_colon_unique:
  assumes "xs @ c # ys = xs' @ c # ys'" "c \<notin> set ys" "c \<notin> set ys'"
  shows "xs = xs' \<and> ys = ys'"
proof -
  have *: "rev ys @ c # rev xs = rev ys' @ c # rev xs'" using arg_cong[OF assms(1), of rev] by simp
  have "rev ys = rev ys'"
    using takeWhile_to[of c "rev ys" "rev xs"] takeWhile_to[of c "rev ys'" "rev xs'"] assms(2,3) * by simp
  with * show ?thesis by simp
qed

text \<open>The key of a secret identifies its path and span, although a path may itself hold colons.\<close>

lemma secret_key_inject: "secret_key p s e = secret_key p' s' e' \<longleftrightarrow> p = p' \<and> s = s' \<and> e = e'"
proof
  assume "secret_key p s e = secret_key p' s' e'"
  then have "(p @ CHR '':'' # show_int s) @ CHR '':'' # show_int e = (p' @ CHR '':'' # show_int s') @ CHR '':'' # show_int e'"
    by (simp add: secret_key_def)
  from last_colon_unique[OF this show_int_no_colon show_int_no_colon]
  have *: "p @ CHR '':'' # show_int s = p' @ CHR '':'' # show_int s'" "e = e'" by simp_all
  from last_colon_unique[OF *(1) show_int_no_colon show_int_no_colon] *(2)
  show "p = p' \<and> s = s' \<and> e = e'" by simp
qed simp

definition hit_place :: "secret_hit \<Rightarrow> string \<times> int \<times> int" where
  "hit_place h = (case h of (path, typ, pid, s, e) \<Rightarrow> (path, s, e))"

lemma hit_place_simp [simp]: "hit_place (path, typ, pid, s, e) = (path, s, e)"
  by (simp add: hit_place_def)

definition place_key :: "string \<times> int \<times> int \<Rightarrow> string" where
  "place_key pl = (case pl of (path, s, e) \<Rightarrow> secret_key path s e)"

lemma place_key_inject [simp]: "place_key a = place_key b \<longleftrightarrow> a = b"
  by (cases a; cases b) (simp add: place_key_def secret_key_inject)

fun first_hits :: "(string \<times> int \<times> int) set \<Rightarrow> secret_hit list \<Rightarrow> secret_hit list" where
  "first_hits seen [] = []"
| "first_hits seen (h # hits) = (if hit_place h \<in> seen then first_hits seen hits
     else h # first_hits (insert (hit_place h) seen) hits)"

lemma drop_seen_first_hits:
  "set keys = place_key ` seen \<Longrightarrow> drop_seen keys hits = first_hits seen hits"
proof (induction hits arbitrary: keys seen)
  case (Cons h hits)
  obtain path kind pid s e where h: "h = (path, kind, pid, s, e)" by (cases h)
  have k: "secret_key path s e = place_key (hit_place h)" by (simp add: h place_key_def)
  have "secret_key path s e \<in> set keys \<longleftrightarrow> hit_place h \<in> seen"
    unfolding k Cons.prems by auto
  with Cons k show ?case by (simp add: h Let_def del: place_key_inject)
qed simp

lemma first_hits_distinct:
  "distinct (map hit_place (first_hits seen hits)) \<and> hit_place ` set (first_hits seen hits) \<inter> seen = {} \<and>
   hit_place ` set (first_hits seen hits) = hit_place ` set hits - seen"
proof (induction hits arbitrary: seen)
  case (Cons h hits)
  from Cons.IH[of seen] Cons.IH[of "insert (hit_place h) seen"] show ?case by auto
qed simp

lemma first_hits_first:
  "h \<in> set (first_hits seen hits) \<Longrightarrow> find (\<lambda>x. hit_place x = hit_place h) hits = Some h"
proof (induction hits arbitrary: seen)
  case (Cons x hits)
  show ?case
  proof (cases "hit_place x = hit_place h")
    case True
    have "h \<notin> set (first_hits s hits)" if "hit_place h \<in> s" for s
      using first_hits_distinct[of s hits] that by blast
    then have "h \<notin> set (first_hits seen hits)" if "hit_place x \<in> seen" "h \<notin> set (first_hits (insert (hit_place x) seen) hits)"
      using that True by simp
    moreover have "h \<notin> set (first_hits (insert (hit_place x) seen) hits)"
      using first_hits_distinct[of "insert (hit_place x) seen" hits] True by auto
    ultimately have "h = x" using Cons.prems by (simp split: if_splits)
    then show ?thesis by simp
  next
    case False
    with Cons show ?thesis by (auto split: if_splits)
  qed
qed simp

text \<open>
  C25. The secrets detector reports each span of each string once: its replacements are at distinct
  places, they cover exactly the places where some enabled pattern matched, and each finding is that
  of the first pattern, in the order of the search, that matched there.
\<close>

theorem evaluateSecrets_once:
  assumes "opt_map (secret_hits cfg) (visitStrings (lib_unicode lib) c) = Some hss"
  shows "\<exists>hits. evaluateSecrets lib d cfg c = Some (unzip_output (map (secret_output d cfg) hits)) \<and>
    distinct (map hit_place hits) \<and> hit_place ` set hits = hit_place ` set (concat hss) \<and>
    (\<forall>h \<in> set hits. find (\<lambda>x. hit_place x = hit_place h) (concat hss) = Some h)"
proof (intro exI conjI)
  show "evaluateSecrets lib d cfg c = Some (unzip_output (map (secret_output d cfg) (first_hits {} (concat hss))))"
    unfolding evaluateSecrets_def assms by (simp add: drop_seen_first_hits[of "[]" "{}"])
qed (use first_hits_distinct[of "{}" "concat hss"] first_hits_first in auto)

theorem evaluateSecrets_once_witness:
  "\<exists>hits. evaluateSecrets \<lparr>lib_unicode = ascii_tables, lib_marshalled = (\<lambda>_. 0)\<rparr> blank_detector
      \<lparr>sec_Types = [], sec_MinEntropy = 0, sec_MinEntropyLength = 0, sec_CategoryPrefix = '''', sec_Replacement = '''', sec_Severity = ''''\<rparr>
      secret_message = Some (unzip_output (map (secret_output blank_detector
        \<lparr>sec_Types = [], sec_MinEntropy = 0, sec_MinEntropyLength = 0, sec_CategoryPrefix = '''', sec_Replacement = '''', sec_Severity = ''''\<rparr>) hits))
    \<and> distinct (map hit_place hits)"
proof -
  let ?lib = "\<lparr>lib_unicode = ascii_tables, lib_marshalled = (\<lambda>_. 0)\<rparr>"
  let ?cfg = "\<lparr>sec_Types = [], sec_MinEntropy = 0, sec_MinEntropyLength = 0, sec_CategoryPrefix = '''', sec_Replacement = '''', sec_Severity = ''''\<rparr>"
  obtain hss where "opt_map (secret_hits ?cfg) (visitStrings (lib_unicode ?lib) secret_message) = Some hss"
    using opt_map_total[of "visitStrings (lib_unicode ?lib) secret_message" "secret_hits ?cfg"] secret_hits_total[of ?cfg] by blast
  from evaluateSecrets_once[OF this, of blank_detector] show ?thesis by blast
qed

section \<open>A regular expression hides what it matches\<close>

lemma message_path_not_text [simp]: "message_path i \<noteq> ''content.text''" "''content.text'' \<noteq> message_path i"
  by (simp_all add: message_path_def)

lemma distinct_visitText: "distinct (map fst (visitText c))"
proof -
  have "distinct (map (message_path \<circ> fst) (List.enumerate 0 ms))" for ms :: "message list"
    by (simp add: distinct_map inj_on_def flip: map_map)
  then show ?thesis by (auto simp: visitText_def case_prod_beta o_def)
qed

text \<open>The replacements at one path are the hits there.\<close>

lemma items_at_concat:
  assumes "opt_map f xs = Some yss" "distinct (map fst xs)" "x \<in> set xs"
    and "\<And>x ys h. f x = Some ys \<Longrightarrow> h \<in> set ys \<Longrightarrow> rp_path (snd h) = fst x"
  obtains ys where "f x = Some ys" "items_at (map snd (concat yss)) (fst x) = map snd ys"
proof -
  have other: "items_at (map snd (concat yss)) p = []"
    if "opt_map f xs = Some yss" "p \<notin> fst ` set xs" for xs yss p
  proof -
    have "rp_path (snd h) \<noteq> p" if "h \<in> set (concat yss)" for h
    proof -
      from that obtain ys where "ys \<in> set yss" "h \<in> set ys" by auto
      with opt_map_mem[OF \<open>opt_map f xs = Some yss\<close>, of ys] assms(4) \<open>p \<notin> _\<close> show ?thesis by blast
    qed
    then show ?thesis by (auto simp: items_at_def filter_empty_conv)
  qed
  have "\<exists>ys. f x = Some ys \<and> items_at (map snd (concat yss)) (fst x) = map snd ys"
    using assms(1-3)
  proof (induction xs arbitrary: yss)
    case (Cons z zs)
    from Cons.prems(1) obtain ys rest where ys: "f z = Some ys" "opt_map f zs = Some rest" "yss = ys # rest"
      by (auto split: option.splits)
    show ?case
    proof (cases "x = z")
      case True
      have "items_at (map snd ys) (fst z) = map snd ys"
        using assms(4)[OF ys(1)] by (auto simp: items_at_def)
      moreover have "items_at (map snd (concat rest)) (fst z) = []"
        using other[OF ys(2)] Cons.prems(2) by auto
      ultimately show ?thesis using ys True by (simp add: items_at_def)
    next
      case False
      with Cons.prems(3) have x: "x \<in> set zs" by simp
      with Cons.prems(2) have x2: "fst x \<noteq> fst z" by (metis distinct.simps(2) image_eqI list.set_map list.simps(9))
      have "items_at (map snd ys) (fst x) = []"
        using assms(4)[OF ys(1)] x2 by (auto simp: items_at_def filter_empty_conv)
      with Cons.IH[OF ys(2) _ x] Cons.prems(2) ys(3) show ?thesis by (simp add: items_at_def)
    qed
  qed simp
  with that show thesis by blast
qed

definition span_item :: "regex_config \<Rightarrow> string \<Rightarrow> span \<Rightarrow> replacement" where
  "span_item cfg path sp = \<lparr>rp_path = path,
     rp_value = (if rx_Replacement cfg = '''' then ''<REDACTED>'' else rx_Replacement cfg),
     rp_start = fst sp, rp_end = snd sp\<rparr>"

lemma text_output_item: "map snd (map (text_output i c v (rx_Replacement cfg) path) spans) = map (span_item cfg path) spans"
  by (simp add: text_output_def span_item_def case_prod_beta)

lemma spans_nested:
  assumes "spans_ok (int n) spans"
  shows "in_text (int n) (map (span_item cfg path) spans)" "nested_spans (map (span_item cfg path) spans)"
proof -
  have b: "0 \<le> fst sp \<and> fst sp \<le> snd sp \<and> snd sp \<le> int n" if "sp \<in> set spans" for sp
    using spans_from_bounds[of 0 "int n" spans "fst sp" "snd sp"] assms that by (simp add: spans_ok_def)
  then show "in_text (int n) (map (span_item cfg path) spans)"
    by (auto simp: in_text_def list_all_iff span_item_def wf_replacement_def)
  have apart: "snd (spans ! i) \<le> fst (spans ! j)" if "i < j" "j < length spans" for i j
    using assms that by (auto simp: spans_ok_def dest: spans_from_disjoint)
  have "apart_or_nested (span_item cfg path (spans ! i)) (span_item cfg path (spans ! j))"
    if "i < length spans" "j < length spans" for i j
    using apart[of i j] apart[of j i] that
    by (cases i j rule: linorder_cases) (auto simp: apart_or_nested_def covers_def span_item_def)
  then show "nested_spans (map (span_item cfg path) spans)"
    by (simp add: nested_spans_def all_set_conv_all_nth)
qed

lemma regex_items:
  assumes "wf_compiled_detector p cd" "cd_Regex cd = Some re"
    and "evaluateDetector lib cd req = Some (fs, rs)" "(path, v) \<in> set (visitText (req_Content req))"
  obtains cfg where "det_Regex (cd_Config cd) = Some cfg"
    "items_at rs path = map (span_item cfg path) (FindAllStringIndex re v)"
proof -
  let ?d = "cd_Config cd"
  from assms(1,2) obtain cfg where cfg: "det_Regex ?d = Some cfg" by (auto simp: wf_defs Let_def)
  have hits: "text_hits lib cd (q, w) = Some (map (text_output (det_ID ?d) (rx_Category cfg) (rx_Severity cfg)
      (rx_Replacement cfg) q) (FindAllStringIndex re w))" for q w
    using assms(2) cfg by (simp add: text_hits_def Let_def)
  have "countConfigured ?d = 1" using assms(1) by (simp add: wf_defs Let_def)
  with cfg have none: "det_RequestLimits ?d = None" "det_AllowDeny ?d = None" "det_JSONSchema ?d = None" "det_Secrets ?d = None"
    by (auto simp: countConfigured_def split: if_splits)
  with assms(3) obtain hss where hss: "opt_map (text_hits lib cd) (visitText (req_Content req)) = Some hss"
    "rs = map snd (concat hss)" by (auto simp: evaluateDetector_def Let_def unzip_output_def)
  have "rp_path (snd h) = fst pv" if "text_hits lib cd pv = Some ys" "h \<in> set ys" for pv ys h
    using that hits[of "fst pv" "snd pv"] by (auto simp: text_output_def)
  then obtain ys where "text_hits lib cd (path, v) = Some ys" "items_at rs path = map snd ys"
    unfolding hss(2) by (rule items_at_concat[OF hss(1) distinct_visitText assms(4), unfolded fst_conv])
  with hits[of path v] have "items_at rs path = map (span_item cfg path) (FindAllStringIndex re v)"
    by (simp only: option.inject text_output_item)
  with cfg that show thesis by blast
qed

text \<open>
  C14. Redacting by a regular expression hides every match: for each visited text, the redacted text
  is the same as for any text of that length that agrees with it outside the matches.
\<close>

theorem regex_redaction_hides:
  assumes "wf_compiled_detector p cd" "cd_Regex cd = Some re"
    and "evaluateDetector lib cd req = Some (fs, rs)" "(path, v) \<in> set (visitText (req_Content req))"
    and "length v' = length v"
    and agree: "\<And>i. i < length v \<Longrightarrow> \<forall>(s, e) \<in> set (FindAllStringIndex re v). \<not> (s \<le> int i \<and> int i < e) \<Longrightarrow> v ! i = v' ! i"
  shows "apply_at rs path v = apply_at rs path v'"
proof -
  obtain cfg where items: "items_at rs path = map (span_item cfg path) (FindAllStringIndex re v)"
    by (rule regex_items[OF assms(1-4)])
  note spans = spans_nested[OF regex_finder.find_ok[of v re], of cfg path, folded items]
  show ?thesis
  proof (rule apply_at_agree[OF spans assms(5)])
    fix i assume i: "i < length v" "\<forall>r \<in> set (items_at rs path). \<not> in_span i r"
    show "v ! i = v' ! i"
      by (rule agree[OF i(1)]) (use i(2) in \<open>auto simp: items in_span_def span_item_def\<close>)
  qed
qed

section \<open>Examples\<close>

definition demo_library :: library where
  "demo_library = \<lparr>lib_unicode = ascii_tables, lib_marshalled = (\<lambda>_. 0)\<rparr>"

definition demo_regex_policy :: policy where
  "demo_regex_policy = demo_policy ''demo/regex'' [StagePreModel] ActionRedact (blank_detector\<lparr>det_ID := ''demo'',
     det_Regex := Some \<lparr>rx_Pattern = ''ke'', rx_Category = ''c'', rx_Replacement = ''*'', rx_Severity = ''high''\<rparr>\<rparr>)"

definition demo_regex_detector :: compiled_detector where
  "demo_regex_detector = \<lparr>cd_Config = hd (spec_Detectors (pol_Spec demo_regex_policy)), cd_Regex = Some (lit ''ke''), cd_JSONSchema = None\<rparr>"

lemma demo_regex_wf: "wf_compiled_detector demo_regex_policy demo_regex_detector"
  by (simp add: wf_defs Let_def demo_regex_policy_def demo_regex_detector_def demo_defs countConfigured_def)

definition demo_request :: evaluation_request where
  "demo_request = \<lparr>req_RequestID = ''r'', req_Stage = StagePreModel, req_TenantID = ''demo'', req_Subject = None,
     req_Target = None, req_Guardrails = \<lparr>gs_Profile = '''', gs_Policies = []\<rparr>, req_Content = secret_message,
     req_Metadata = None, req_EncodedBytes = 10\<rparr>"



theorem evaluateDetector_contract_witness:
  "\<exists>fs rs. evaluateDetector demo_library demo_regex_detector demo_request = Some (fs, rs) \<and>
     map finding_spans fs = map (\<lambda>r. [rp_span r]) rs"
  using evaluateDetector_contract[OF demo_regex_wf, of demo_library demo_request]
  by (force simp: demo_regex_policy_def demo_policy_def)

theorem regex_redaction_hides_witness:
  "\<exists>fs rs. evaluateDetector demo_library demo_regex_detector demo_request = Some (fs, rs) \<and>
     apply_at rs (message_path 0) ''key'' = apply_at rs (message_path 0) ''xxy''"
proof -
  obtain fs rs where run: "evaluateDetector demo_library demo_regex_detector demo_request = Some (fs, rs)"
    using builtin.total[OF demo_regex_wf] by blast
  have re: "cd_Regex demo_regex_detector = Some (lit ''ke'')" by (simp add: demo_regex_detector_def)
  have visit: "(message_path 0, ''key'') \<in> set (visitText (req_Content demo_request))"
    by (simp add: demo_request_def secret_message_def visitText_def)
  have found: "FindAllStringIndex (lit ''ke'') ''key'' = [(0, 2)]" by code_simp
  have "apply_at rs (message_path 0) ''key'' = apply_at rs (message_path 0) ''xxy''"
    by (rule regex_redaction_hides[OF demo_regex_wf re run visit]) (auto simp: found nth_Cons' split: if_splits)
  with run show ?thesis by blast
qed

end
