(* ===== verification/GR_Context.thy ===== *)
theory GR_Context
  imports GR_Time
begin

text \<open>
  What the program uses of Go's \<open>context\<close> and \<open>errors\<close> packages. A context is its deadline, the
  time its owner cancels it, and whether it was created with its deadline already passed. Time is
  the integer the monotonic clock shows, in nanoseconds. A timer may fire late: whether a context
  has ended is read off a second clock, the time up to which timers have fired.
\<close>

section \<open>Contexts\<close>

datatype ctx_err = Canceled | DeadlineExceeded

record ctx =
  cx_deadline :: "int option"
  cx_cancel :: "int option"
  cx_expired :: bool

text \<open>\<open>ctx.Err()\<close> when timers have fired up to time \<open>t\<close>: what came first stays.\<close>

definition ctx_Err :: "ctx \<Rightarrow> int \<Rightarrow> ctx_err option" where
  "ctx_Err c t =
     (if cx_expired c then Some DeadlineExceeded
      else case (cx_cancel c, cx_deadline c) of
        (None, None) \<Rightarrow> None
      | (Some k, None) \<Rightarrow> if k \<le> t then Some Canceled else None
      | (None, Some d) \<Rightarrow> if d \<le> t then Some DeadlineExceeded else None
      | (Some k, Some d) \<Rightarrow> if k \<le> t \<and> k < d then Some Canceled
          else if d \<le> t then Some DeadlineExceeded else None)"

text \<open>\<open>context.WithTimeout\<close> at time \<open>now\<close>; a parent with an earlier deadline keeps its own.\<close>

definition WithTimeout :: "ctx \<Rightarrow> int \<Rightarrow> duration \<Rightarrow> ctx" where
  "WithTimeout c now timeout =
     (case cx_deadline c of
        Some d \<Rightarrow> if d < now + timeout then c else c\<lparr>cx_deadline := Some (now + timeout), cx_expired := cx_expired c \<or> timeout \<le> 0\<rparr>
      | None \<Rightarrow> c\<lparr>cx_deadline := Some (now + timeout), cx_expired := cx_expired c \<or> timeout \<le> 0\<rparr>)"

definition Background :: ctx where
  "Background = \<lparr>cx_deadline = None, cx_cancel = None, cx_expired = False\<rparr>"

lemma ctx_Err_sticky: "ctx_Err c t = Some e \<Longrightarrow> t \<le> t' \<Longrightarrow> ctx_Err c t' = Some e"
  by (auto simp: ctx_Err_def split: option.splits if_splits)

lemma WithTimeout_deadline: "\<exists>d. cx_deadline (WithTimeout c now timeout) = Some d \<and> d \<le> now + timeout"
  by (auto simp: WithTimeout_def split: option.splits)

text \<open>A context derived from one that has ended has ended.\<close>

lemma WithTimeout_ended: "ctx_Err c t \<noteq> None \<Longrightarrow> ctx_Err (WithTimeout c now timeout) t \<noteq> None"
  by (auto simp: ctx_Err_def WithTimeout_def split: option.splits if_splits)

section \<open>Errors\<close>

text \<open>
  An error value by what \<open>errors.Is\<close> and \<open>errors.As\<close> see of it: the errors of contexts, the
  engine's \<open>DetectorError\<close> with the error it wraps, an error that wraps others, any other error.
\<close>

datatype go_error =
    ContextError ctx_err
  | DetectorError string bool "go_error option"
  | Wrapping "go_error list"
  | PlainError

text \<open>\<open>errors.Is(err, target)\<close> for the error of a context.\<close>

fun errors_Is :: "go_error \<Rightarrow> ctx_err \<Rightarrow> bool" where
  "errors_Is (ContextError e) target = (e = target)"
| "errors_Is (DetectorError code retry None) target = False"
| "errors_Is (DetectorError code retry (Some e)) target = errors_Is e target"
| "errors_Is (Wrapping es) target = (\<exists>e \<in> set es. errors_Is e target)"
| "errors_Is PlainError target = False"

text \<open>\<open>errors.As(err, *DetectorError)\<close>: the first one in the chain.\<close>

fun errors_As :: "go_error \<Rightarrow> (string \<times> bool) option" where
  "errors_As (ContextError e) = None"
| "errors_As (DetectorError code retry inner) = Some (code, retry)"
| "errors_As (Wrapping es) = (case List.extract (\<lambda>r. r \<noteq> None) (map errors_As es) of
     Some (_, r, _) \<Rightarrow> r | None \<Rightarrow> None)"
| "errors_As PlainError = None"

end
