(* ===== verification/GR_Decision.thy ===== *)
theory GR_Decision
  imports GR_Domain GR_Context
begin

text \<open>
  How the evaluator of \<open>internal/engine/evaluator.go\<close> records failures and decides: the failure of a
  detector (\<open>detectorFailure\<close>, \<open>newFailure\<close>, \<open>effectiveDetectorTimeout\<close>,
  \<open>durationMilliseconds\<close>), the order of actions (\<open>actionPriority\<close>) and the effect of a failure on
  the decision (\<open>applyFailureDecision\<close>). The abstract order of outcomes is \<open>verdict\<close>.
\<close>

section \<open>The operations\<close>

definition actionPriority :: "action \<Rightarrow> int" where
  "actionPriority a = (if a = ActionBlock then 4 else if a = ActionRedact then 3 else if a = ActionMonitor then 2 else 1)"

text \<open>\<open>remaining\<close> is the time left until the deadline of the policy, if it has one.\<close>

definition effectiveDetectorTimeout :: "duration option \<Rightarrow> duration \<Rightarrow> failure_scope \<times> duration" where
  "effectiveDetectorTimeout remaining configured = (case remaining of
     None \<Rightarrow> (FailureScopeDetector, configured)
   | Some r \<Rightarrow> if configured < r then (FailureScopeDetector, configured) else (FailureScopePolicy, r))"

definition durationMilliseconds :: "duration \<Rightarrow> int" where
  "durationMilliseconds d = (let ms = Milliseconds d in if ms = 0 \<and> 0 < d then 1 else ms)"

definition newFailure :: "string \<Rightarrow> string \<Rightarrow> failure_scope \<Rightarrow> failure_code \<Rightarrow> failure_mode \<Rightarrow> duration \<Rightarrow> bool \<Rightarrow> detector_failure" where
  "newFailure policyID detectorID scope code mode timeout retryable = \<lparr>df_PolicyID = policyID,
     df_DetectorID = detectorID, df_Scope = scope, df_Code = code, df_FailureMode = mode,
     df_TimeoutMS = durationMilliseconds timeout, df_Retryable = retryable\<rparr>"

definition validExecutorFailureCode :: "failure_code \<Rightarrow> bool" where
  "validExecutorFailureCode c \<longleftrightarrow> c \<in> set [FailureDetectorUnavailable, FailureDetectorInvalidResponse,
     FailureDetectorUnsupported, FailureDetectorInternal]"

definition detectorFailure :: "string \<Rightarrow> string \<Rightarrow> failure_scope \<Rightarrow> failure_mode \<Rightarrow> duration \<Rightarrow> go_error \<Rightarrow> detector_failure" where
  "detectorFailure policyID detectorID scope mode timeout err =
     (if errors_Is err DeadlineExceeded then
        newFailure policyID detectorID scope
          (if scope = FailureScopePolicy then FailurePolicyTimeout else FailureDetectorTimeout) mode timeout True
      else case errors_As err of
        Some (code, retryable) \<Rightarrow> newFailure policyID detectorID FailureScopeDetector
          (if validExecutorFailureCode code then code else FailureDetectorInternal) mode timeout retryable
      | None \<Rightarrow> newFailure policyID detectorID FailureScopeDetector FailureDetectorInternal mode timeout False)"

definition failure_action :: "failure_mode \<Rightarrow> action" where
  "failure_action mode = (if mode = FailureClosed then ActionBlock
     else if mode = FailureMonitor then ActionMonitor else ActionAllow)"

definition failure_reason :: "detector_failure \<Rightarrow> string" where
  "failure_reason f = df_Code f @ '' in policy '' @ df_PolicyID f @ '' handled with failure mode '' @ df_FailureMode f"

text \<open>The decision and the winning reason, after a failure.\<close>

definition applyFailureDecision :: "decision \<Rightarrow> string \<Rightarrow> detector_failure \<Rightarrow> decision \<times> string" where
  "applyFailureDecision d winning f = (let a = failure_action (df_FailureMode f) in
     if actionPriority (dec_Action d) < actionPriority a then (d\<lparr>dec_Action := a\<rparr>, failure_reason f)
     else if a = ActionAllow \<and> dec_Action d = ActionAllow \<and> winning = '''' then (d, failure_reason f)
     else (d, winning))"

section \<open>Verdicts\<close>

datatype verdict = Allow | Monitor | Redact | Block

instantiation verdict :: linorder
begin

fun verdict_rank :: "verdict \<Rightarrow> nat" where
  "verdict_rank Allow = 0" | "verdict_rank Monitor = 1" | "verdict_rank Redact = 2" | "verdict_rank Block = 3"

definition less_eq_verdict :: "verdict \<Rightarrow> verdict \<Rightarrow> bool" where
  "less_eq_verdict a b \<longleftrightarrow> verdict_rank a \<le> verdict_rank b"

definition less_verdict :: "verdict \<Rightarrow> verdict \<Rightarrow> bool" where
  "less_verdict a b \<longleftrightarrow> verdict_rank a < verdict_rank b"

lemma verdict_rank_inject: "verdict_rank a = verdict_rank b \<longleftrightarrow> a = b"
  by (cases a; cases b) auto

instance
  by standard (auto simp: less_eq_verdict_def less_verdict_def verdict_rank_inject)

end

definition verdict_of :: "action \<Rightarrow> verdict" where
  "verdict_of a = (if a = ActionBlock then Block else if a = ActionRedact then Redact
     else if a = ActionMonitor then Monitor else Allow)"

lemma verdict_of_simps [simp]:
  "verdict_of ActionBlock = Block" "verdict_of ActionRedact = Redact"
  "verdict_of ActionMonitor = Monitor" "verdict_of ActionAllow = Allow"
  by (simp_all add: verdict_of_def)

lemma actionPriority_verdict: "actionPriority a < actionPriority b \<longleftrightarrow> verdict_of a < verdict_of b"
  by (auto simp: actionPriority_def verdict_of_def less_verdict_def)

lemma Allow_least [simp]: "Allow \<le> v"
  by (simp add: less_eq_verdict_def)

lemma Block_greatest [simp]: "v \<le> Block"
  by (cases v) (simp_all add: less_eq_verdict_def)

definition failure_verdict :: "detector_failure \<Rightarrow> verdict" where
  "failure_verdict f = verdict_of (failure_action (df_FailureMode f))"

lemma applyFailureDecision_verdict:
  "verdict_of (dec_Action (fst (applyFailureDecision d w f))) = max (verdict_of (dec_Action d)) (failure_verdict f)"
  by (auto simp: applyFailureDecision_def Let_def actionPriority_verdict failure_verdict_def max_def not_less)

end
