(* ===== verification/GR_Tracing.thy ===== *)
theory GR_Tracing
  imports GR_Prelude
begin

text \<open>
  The spans a tracer is told of (\<open>Tracer\<close>, \<open>Span\<close>, \<open>SpanAttributes\<close> of
  \<open>internal/observability/observability.go\<close>), as a log of events, and when such a log is balanced:
  every span started is ended, innermost first.
\<close>

record span_attributes =
  sa_Operation :: string
  sa_Stage :: string
  sa_PolicyID :: string
  sa_DetectorID :: string

datatype trace_event = SpanStart string span_attributes | SpanEnd string string

fun open_spans :: "string list \<Rightarrow> trace_event list \<Rightarrow> string list option" where
  "open_spans stack [] = Some stack"
| "open_spans stack (SpanStart n a # es) = open_spans (n # stack) es"
| "open_spans stack (SpanEnd n s # es) = (case stack of m # ms \<Rightarrow> if m = n then open_spans ms es else None | [] \<Rightarrow> None)"

definition balanced :: "trace_event list \<Rightarrow> bool" where
  "balanced es \<longleftrightarrow> open_spans [] es = Some []"

lemma open_spans_append:
  "open_spans stack (xs @ ys) = (case open_spans stack xs of None \<Rightarrow> None | Some stack' \<Rightarrow> open_spans stack' ys)"
  by (induction stack xs rule: open_spans.induct) (auto split: list.split)

lemma open_spans_more: "open_spans stack es = Some stack' \<Longrightarrow> open_spans (stack @ rest) es = Some (stack' @ rest)"
  by (induction stack es rule: open_spans.induct) (auto split: list.splits if_splits)

lemma balanced_any: "balanced es \<Longrightarrow> open_spans stack es = Some stack"
  using open_spans_more[of "[]" es "[]" stack] by (simp add: balanced_def)

lemma balanced_Nil [simp]: "balanced []"
  by (simp add: balanced_def)

lemma balanced_append: "balanced xs \<Longrightarrow> balanced ys \<Longrightarrow> balanced (xs @ ys)"
  by (simp add: balanced_def open_spans_append)

lemma balanced_span: "balanced es \<Longrightarrow> balanced (SpanStart n a # es @ [SpanEnd n s])"
  using balanced_any[of es "[n]"] by (simp add: balanced_def open_spans_append)

lemma balanced_span_Cons: "balanced (SpanStart n a # SpanEnd n s # es) \<longleftrightarrow> balanced es"
  by (simp add: balanced_def)

end
