(* ===== verification/GR_Evaluator.thy ===== *)
theory GR_Evaluator
  imports GR_Detectors GR_Decision GR_Tracing
begin

text \<open>
  \<open>Evaluator.Evaluate\<close> of \<open>internal/engine/evaluator.go\<close>: resolve the policies, run their detectors
  under the deadlines of the caller, the policy and the detector, record findings and failures,
  decide, and redact. The code is cut where its loops are: one detector (\<open>detector_step\<close>), the
  detectors of a policy, one policy, the policies.

  The environment answers what the code asks of the world: the clock at each reading, how far timers
  have fired at each test of a context, and the random bytes of the identifier. Readings are
  numbered (\<open>es_tick\<close>), so no assumption relates two of them unless a theorem makes one. The
  executor is an argument, as in the code; \<open>builtin_Evaluate\<close> is the one the service uses. The
  caller's tracer is the log \<open>es_events\<close>.
\<close>

record environment =
  ev_library :: library
  ev_now :: "nat \<Rightarrow> int"
  ev_fired :: "nat \<Rightarrow> int"
  ev_ctx :: ctx
  ev_random :: "string option"

type_synonym exec_result = "(go_error, detector_output) result"

text \<open>An executor returns its result, or \<open>None\<close> for a panic, and the number of the next reading.\<close>

type_synonym executor = "environment \<Rightarrow> ctx \<Rightarrow> nat \<Rightarrow> compiled_detector \<Rightarrow> evaluation_request \<Rightarrow> exec_result option \<times> nat"

record evaluator =
  el_resolver :: resolver
  el_executor :: executor

datatype eval_error = ContextEnded ctx_err | Unresolved resolve_error

datatype eval_stop = StopError eval_error | StopPanic

datatype flow = Continue | Break | Abort eval_stop

record eval_state =
  es_tick :: nat
  es_decision :: decision
  es_winning :: string
  es_applied :: "string slice"
  es_findings :: "finding list"
  es_failures :: "detector_failure list"
  es_replacements :: "replacement list"
  es_detector_ms :: "(string \<times> int) list"
  es_policy_ms :: "(string \<times> int) list"
  es_events :: "trace_event list"

section \<open>The built-in executor\<close>

definition builtin_Evaluate :: executor where
  "builtin_Evaluate env c n cd req =
     (case ctx_Err c (ev_fired env n) of Some e \<Rightarrow> (Some (Inl (ContextError e)), Suc n)
      | None \<Rightarrow> (case evaluateDetector (ev_library env) cd req of None \<Rightarrow> (None, Suc n)
        | Some out \<Rightarrow> (case ctx_Err c (ev_fired env (Suc n)) of
            Some e \<Rightarrow> (Some (Inl (ContextError e)), Suc (Suc n))
          | None \<Rightarrow> (Some (Inr out), Suc (Suc n)))))"

section \<open>Reading the world\<close>

definition read_clock :: "environment \<Rightarrow> eval_state \<Rightarrow> int \<times> eval_state" where
  "read_clock env st = (ev_now env (es_tick st), st\<lparr>es_tick := Suc (es_tick st)\<rparr>)"

definition read_err :: "environment \<Rightarrow> ctx \<Rightarrow> eval_state \<Rightarrow> ctx_err option \<times> eval_state" where
  "read_err env c st = (ctx_Err c (ev_fired env (es_tick st)), st\<lparr>es_tick := Suc (es_tick st)\<rparr>)"

definition emit :: "trace_event list \<Rightarrow> eval_state \<Rightarrow> eval_state" where
  "emit evs st = st\<lparr>es_events := es_events st @ evs\<rparr>"

text \<open>\<open>m[key] += ms\<close>\<close>

definition add_ms :: "string \<Rightarrow> int \<Rightarrow> (string \<times> int) list \<Rightarrow> (string \<times> int) list" where
  "add_ms key ms m = AList.map_default key ms (\<lambda>old. old + ms) m"

definition span_attrs :: "evaluation_request \<Rightarrow> string \<Rightarrow> string \<Rightarrow> span_attributes" where
  "span_attrs req pid did = \<lparr>sa_Operation = '''', sa_Stage = req_Stage req, sa_PolicyID = pid, sa_DetectorID = did\<rparr>"

section \<open>One detector\<close>

definition record_failure :: "detector_failure \<Rightarrow> eval_state \<Rightarrow> eval_state" where
  "record_failure f st = (let (d, w) = applyFailureDecision (es_decision st) (es_winning st) f in
     st\<lparr>es_failures := es_failures st @ [f], es_decision := d, es_winning := w\<rparr>)"

text \<open>The span of the detector, its timing and its outcome; a deadline passed meanwhile is an error.\<close>

definition execute_detector :: "environment \<Rightarrow> executor \<Rightarrow> string \<Rightarrow> ctx \<Rightarrow> compiled_detector \<Rightarrow> evaluation_request \<Rightarrow>
    eval_state \<Rightarrow> (failure_scope \<times> duration \<times> exec_result) option \<times> eval_state" where
  "execute_detector env run pid pctx cd req st =
     (let did = det_ID (cd_Config cd);
          (now, st) = read_clock env st;
          (scope, timeout) = effectiveDetectorTimeout (map_option (\<lambda>d. d - now) (cx_deadline pctx)) (det_Timeout (cd_Config cd));
          (now, st) = read_clock env st;
          dctx = WithTimeout pctx now timeout;
          (started, st) = read_clock env st;
          st = emit [SpanStart ''detector.evaluate'' (span_attrs req pid did)] st;
          (out, n) = run env dctx (es_tick st) cd req;
          st = st\<lparr>es_tick := n\<rparr> in
      case out of None \<Rightarrow> (None, st)
      | Some res \<Rightarrow>
          (let (ended, st) = read_clock env st;
               st = st\<lparr>es_detector_ms := add_ms did (Milliseconds (ended - started)) (es_detector_ms st)\<rparr> in
           case res of Inl e \<Rightarrow> (Some (scope, timeout, Inl e), st)
           | Inr r \<Rightarrow> (let (err, st) = read_err env dctx st in
               (Some (scope, timeout, case err of Some e \<Rightarrow> Inl (ContextError e) | None \<Rightarrow> Inr r), st))))"

definition fail_detector :: "environment \<Rightarrow> policy \<Rightarrow> string \<Rightarrow> failure_scope \<Rightarrow> duration \<Rightarrow> go_error \<Rightarrow> eval_state \<Rightarrow> flow \<times> eval_state" where
  "fail_detector env p did scope timeout e st =
     (let st = emit [SpanEnd ''detector.evaluate'' ''error''] st;
          (err, st) = read_err env (ev_ctx env) st in
      case err of Some ce \<Rightarrow> (Abort (StopError (ContextEnded ce)), st)
      | None \<Rightarrow>
          (let evidence = (if scope = FailureScopePolicy \<and> errors_Is e DeadlineExceeded then spec_Timeout (pol_Spec p) else timeout);
               f = detectorFailure (Policy_CanonicalID p) did scope (spec_FailureMode (pol_Spec p)) evidence e in
           (if df_Scope f = FailureScopePolicy then Break else Continue, record_failure f st)))"

definition pass_detector :: "policy \<Rightarrow> detector_output \<Rightarrow> eval_state \<Rightarrow> eval_state" where
  "pass_detector p out st =
     (let st = emit [SpanEnd ''detector.evaluate'' ''ok''] st;
          st = st\<lparr>es_findings := es_findings st @ fst out\<rparr>;
          act = spec_Action (pol_Spec p) in
      if fst out = [] then st
      else let st = (if actionPriority (dec_Action (es_decision st)) < actionPriority act
             then st\<lparr>es_decision := (es_decision st)\<lparr>dec_Action := act\<rparr>, es_winning := ''matched policy '' @ Policy_CanonicalID p\<rparr>
             else st) in
        if act = ActionRedact then st\<lparr>es_replacements := es_replacements st @ snd out\<rparr> else st)"

definition policy_timeout :: "policy \<Rightarrow> detector_failure" where
  "policy_timeout p = newFailure (Policy_CanonicalID p) '''' FailureScopePolicy FailurePolicyTimeout
     (spec_FailureMode (pol_Spec p)) (spec_Timeout (pol_Spec p)) True"

definition detector_step :: "environment \<Rightarrow> executor \<Rightarrow> policy \<Rightarrow> ctx \<Rightarrow> evaluation_request \<Rightarrow> compiled_detector \<Rightarrow> eval_state \<Rightarrow> flow \<times> eval_state" where
  "detector_step env run p pctx req cd st =
     (let (err, st) = read_err env (ev_ctx env) st in
      case err of Some e \<Rightarrow> (Abort (StopError (ContextEnded e)), st)
      | None \<Rightarrow> (let (perr, st) = read_err env pctx st in
        case perr of Some e \<Rightarrow> (Break, record_failure (policy_timeout p) st)
        | None \<Rightarrow> (let (res, st) = execute_detector env run (Policy_CanonicalID p) pctx cd req st in
          case res of None \<Rightarrow> (Abort StopPanic, st)
          | Some (scope, timeout, Inl e) \<Rightarrow> fail_detector env p (det_ID (cd_Config cd)) scope timeout e st
          | Some (scope, timeout, Inr out) \<Rightarrow> (Continue, pass_detector p out st))))"

section \<open>The loops\<close>

fun detector_loop :: "environment \<Rightarrow> executor \<Rightarrow> policy \<Rightarrow> ctx \<Rightarrow> evaluation_request \<Rightarrow> compiled_detector list \<Rightarrow> eval_state \<Rightarrow> eval_stop option \<times> eval_state" where
  "detector_loop env run p pctx req [] st = (None, st)"
| "detector_loop env run p pctx req (cd # cds) st = (case detector_step env run p pctx req cd st of
     (Continue, st') \<Rightarrow> detector_loop env run p pctx req cds st'
   | (Break, st') \<Rightarrow> (None, st')
   | (Abort stop, st') \<Rightarrow> (Some stop, st'))"

definition policy_step :: "environment \<Rightarrow> executor \<Rightarrow> evaluation_request \<Rightarrow> compiled_policy \<Rightarrow> eval_state \<Rightarrow> eval_stop option \<times> eval_state" where
  "policy_step env run req c st =
     (let p = cp_Config c; (err, st) = read_err env (ev_ctx env) st in
      case err of Some e \<Rightarrow> (Some (StopError (ContextEnded e)), st)
      | None \<Rightarrow>
          (let st = st\<lparr>es_applied := append_slice (es_applied st) [Policy_CanonicalID p]\<rparr>;
               (started, st) = read_clock env st;
               (now, st) = read_clock env st;
               (stop, st) = detector_loop env run p (WithTimeout (ev_ctx env) now (spec_Timeout (pol_Spec p))) req (cp_Detectors c) st in
           case stop of Some s \<Rightarrow> (Some s, st)
           | None \<Rightarrow> (let (ended, st) = read_clock env st in
               (None, st\<lparr>es_policy_ms := add_ms (Policy_CanonicalID p) (Milliseconds (ended - started)) (es_policy_ms st)\<rparr>))))"

fun policy_loop :: "environment \<Rightarrow> executor \<Rightarrow> evaluation_request \<Rightarrow> compiled_policy list \<Rightarrow> eval_state \<Rightarrow> eval_stop option \<times> eval_state" where
  "policy_loop env run req [] st = (None, st)"
| "policy_loop env run req (c # cs) st = (case policy_step env run req c st of
     (Some stop, st') \<Rightarrow> (Some stop, st')
   | (None, st') \<Rightarrow> policy_loop env run req cs st')"

section \<open>\<open>Evaluate\<close>\<close>

text \<open>\<open>newID\<close>: twelve random bytes, or the time when there are none.\<close>

definition newID :: "environment \<Rightarrow> nat \<Rightarrow> string" where
  "newID env n = ''eval_'' @ (case ev_random env of Some bs \<Rightarrow> hex_encode bs | None \<Rightarrow> show_int (ev_now env n))"

definition start_state :: "nat \<Rightarrow> eval_state" where
  "start_state n = \<lparr>es_tick = n,
     es_decision = \<lparr>dec_Action = ActionAllow, dec_Reason = ''no policy findings'', dec_TransformedContent = None\<rparr>,
     es_winning = '''', es_applied = None, es_findings = [], es_failures = [], es_replacements = [],
     es_detector_ms = [], es_policy_ms = [], es_events = []\<rparr>"

datatype eval_outcome = Response evaluation_response | EvalFailed eval_error | Panicked

text \<open>What the call returns, the spans it traced, and the caller's content afterwards.\<close>

record eval_run =
  er_outcome :: eval_outcome
  er_events :: "trace_event list"
  er_content :: content_envelope

definition build_response :: "environment \<Rightarrow> evaluation_request \<Rightarrow> string \<Rightarrow> int \<Rightarrow> decision \<Rightarrow> eval_state \<Rightarrow> evaluation_response" where
  "build_response env req ident total_ms d st = \<lparr>resp_EvaluationID = ident, resp_RequestID = req_RequestID req,
     resp_Decision = d, resp_AppliedPolicies = es_applied st, resp_Findings = es_findings st,
     resp_DetectorFailures = es_failures st,
     resp_Timing = \<lparr>tm_TotalMS = total_ms, tm_Detectors = es_detector_ms st, tm_Policies = es_policy_ms st\<rparr>\<rparr>"

text \<open>What follows the loop: the reason, the transformed content, the total time.\<close>

definition finish :: "environment \<Rightarrow> evaluation_request \<Rightarrow> string \<Rightarrow> int \<Rightarrow> eval_state \<Rightarrow> eval_run" where
  "finish env req ident started st =
     (let sa = span_attrs req '''' '''';
          d = (if es_winning st \<noteq> '''' then (es_decision st)\<lparr>dec_Reason := es_winning st\<rparr> else es_decision st);
          st = emit [SpanStart ''decision.aggregate'' sa, SpanEnd ''decision.aggregate'' ''ok''] st in
      if dec_Action d = ActionRedact \<and> es_replacements st \<noteq> [] then
        (let st = emit [SpanStart ''content.transform'' sa] st in
         case applyReplacements (lib_unicode (ev_library env)) (req_Content req) (es_replacements st) of
           None \<Rightarrow> \<lparr>er_outcome = Panicked, er_events = es_events st, er_content = req_Content req\<rparr>
         | Some (content, caller) \<Rightarrow>
             (let st = emit [SpanEnd ''content.transform'' ''ok''] st; (ended, st) = read_clock env st in
              \<lparr>er_outcome = Response (build_response env req ident (Milliseconds (ended - started))
                  (d\<lparr>dec_TransformedContent := Some content\<rparr>) st),
                er_events = es_events st, er_content = caller\<rparr>))
      else
        (let (ended, st) = read_clock env st in
         \<lparr>er_outcome = Response (build_response env req ident (Milliseconds (ended - started)) d st),
           er_events = es_events st, er_content = req_Content req\<rparr>))"

definition end_evaluation :: "evaluation_request \<Rightarrow> eval_run \<Rightarrow> eval_run" where
  "end_evaluation req r = r\<lparr>er_events := SpanStart ''guardrails.evaluate'' (span_attrs req '''' '''') # er_events r @
     [SpanEnd ''guardrails.evaluate'' (case er_outcome r of Response _ \<Rightarrow> ''ok'' | _ \<Rightarrow> ''error'')]\<rparr>"

definition resolve_events :: "evaluation_request \<Rightarrow> string \<Rightarrow> trace_event list" where
  "resolve_events req status = [SpanStart ''policy.resolve'' (span_attrs req '''' ''''), SpanEnd ''policy.resolve'' status]"

definition Evaluate_body :: "evaluator \<Rightarrow> environment \<Rightarrow> evaluation_request \<Rightarrow> eval_run" where
  "Evaluate_body el env req =
     (let started = ev_now env 0; stopped = (\<lambda>e evs. \<lparr>er_outcome = e, er_events = evs, er_content = req_Content req\<rparr>) in
      case ctx_Err (ev_ctx env) (ev_fired env 1) of Some e \<Rightarrow> stopped (EvalFailed (ContextEnded e)) []
      | None \<Rightarrow>
        (case Resolve (el_resolver el) (req_TenantID req) (gs_Profile (req_Guardrails req)) (gs_Policies (req_Guardrails req)) (req_Stage req) of
           Inl e \<Rightarrow> stopped (EvalFailed (Unresolved e)) (resolve_events req ''error'')
         | Inr policies \<Rightarrow>
             (let st = emit (resolve_events req ''ok'') (start_state 3) in
              case policy_loop env (el_executor el) req policies st of
                (Some (StopError e), st) \<Rightarrow> stopped (EvalFailed e) (es_events st)
              | (Some StopPanic, st) \<Rightarrow> stopped Panicked (es_events st)
              | (None, st) \<Rightarrow> finish env req (newID env 2) started st)))"

definition Evaluate :: "evaluator \<Rightarrow> environment \<Rightarrow> evaluation_request \<Rightarrow> eval_run" where
  "Evaluate el env req = end_evaluation req (Evaluate_body el env req)"

text \<open>\<open>engine.New\<close>: the evaluator of a resolver, with the built-in executor.\<close>

definition New_evaluator :: "resolver \<Rightarrow> evaluator" where
  "New_evaluator r = \<lparr>el_resolver = r, el_executor = builtin_Evaluate\<rparr>"

end
