(* ===== verification/GR_Verdicts.thy ===== *)
theory GR_Verdicts
  imports GR_Evaluator
begin

text \<open>
  The evaluator implements a small abstract machine. A run is a sequence of steps: a detector of a
  policy found something, or failed. The machine keeps a verdict, the findings and the failures;
  each step appends what it reports and raises the verdict to at least its own (\<open>absorb\<close>). The
  concrete state is related to the abstract one by \<open>abstract_of\<close>; the lemmas go from one detector
  to the detectors of a policy to all policies.
\<close>

section \<open>The abstract machine\<close>

datatype step = Found policy string "finding list" | Failed policy detector_failure

record abstract_state =
  ab_verdict :: verdict
  ab_findings :: "finding list"
  ab_failures :: "detector_failure list"

fun step_verdict :: "step \<Rightarrow> verdict" where
  "step_verdict (Found p did fs) = verdict_of (spec_Action (pol_Spec p))"
| "step_verdict (Failed p f) = failure_verdict f"

fun step_findings :: "step \<Rightarrow> finding list" where
  "step_findings (Found p did fs) = fs" | "step_findings (Failed p f) = []"

fun step_failures :: "step \<Rightarrow> detector_failure list" where
  "step_failures (Found p did fs) = []" | "step_failures (Failed p f) = [f]"

definition absorb :: "abstract_state \<Rightarrow> step \<Rightarrow> abstract_state" where
  "absorb a s = \<lparr>ab_verdict = max (ab_verdict a) (step_verdict s), ab_findings = ab_findings a @ step_findings s,
     ab_failures = ab_failures a @ step_failures s\<rparr>"

definition abstract_start :: abstract_state where
  "abstract_start = \<lparr>ab_verdict = Allow, ab_findings = [], ab_failures = []\<rparr>"

text \<open>The steps that the policies in force allow.\<close>

fun legal :: "compiled_policy list \<Rightarrow> step \<Rightarrow> bool" where
  "legal ps (Found p did fs) \<longleftrightarrow> fs \<noteq> [] \<and>
     (\<exists>c \<in> set ps. cp_Config c = p \<and> (\<exists>cd \<in> set (cp_Detectors c). det_ID (cd_Config cd) = did \<and> (\<forall>f \<in> set fs. labelled (cd_Config cd) f)))"
| "legal ps (Failed p f) \<longleftrightarrow> df_PolicyID f = Policy_CanonicalID p \<and> df_FailureMode f = spec_FailureMode (pol_Spec p) \<and>
     df_TimeoutMS f \<le> durationMilliseconds (spec_Timeout (pol_Spec p)) \<and> FailureCode_Valid (df_Code f) \<and>
     (\<exists>c \<in> set ps. cp_Config c = p \<and> df_DetectorID f \<in> insert '''' ((det_ID \<circ> cd_Config) ` set (cp_Detectors c)))"

lemma legal_mono: "legal ps s \<Longrightarrow> set ps \<subseteq> set qs \<Longrightarrow> legal qs s"
  by (cases s) auto

lemma foldl_absorb:
  "ab_verdict (foldl absorb a steps) = foldl max (ab_verdict a) (map step_verdict steps)"
  "ab_findings (foldl absorb a steps) = ab_findings a @ concat (map step_findings steps)"
  "ab_failures (foldl absorb a steps) = ab_failures a @ concat (map step_failures steps)"
  by (induction steps arbitrary: a) (auto simp: absorb_def)

lemma foldl_max_ge: "a \<le> foldl max a vs" for a :: "'a :: linorder"
  by (induction vs arbitrary: a) (auto intro: order_trans[OF max.cobounded1])

lemma foldl_max_mem: "v \<in> set vs \<Longrightarrow> v \<le> foldl max a vs" for a :: "'a :: linorder"
  by (induction vs arbitrary: a) (auto intro: order_trans[OF max.cobounded2 foldl_max_ge])

lemma foldl_max_from: "foldl max a vs = a \<or> foldl max a vs \<in> set vs" for a :: "'a :: linorder"
  by (induction vs arbitrary: a) (auto simp: max_def split: if_splits)

section \<open>Relating the states\<close>

definition abstract_of :: "eval_state \<Rightarrow> abstract_state" where
  "abstract_of st = \<lparr>ab_verdict = verdict_of (dec_Action (es_decision st)), ab_findings = es_findings st,
     ab_failures = es_failures st\<rparr>"

text \<open>
  The invariant of the concrete state: a redact decision always has something to replace, and a
  winning reason is set exactly when there is an action other than allow or a failure.
\<close>

definition state_ok :: "eval_state \<Rightarrow> bool" where
  "state_ok st \<longleftrightarrow> dec_Action (es_decision st) \<in> {ActionAllow, ActionMonitor, ActionRedact, ActionBlock} \<and>
     dec_TransformedContent (es_decision st) = None \<and> list_all wf_replacement (es_replacements st) \<and>
     (dec_Action (es_decision st) = ActionRedact \<longrightarrow> es_replacements st \<noteq> []) \<and>
     dec_Reason (es_decision st) = ''no policy findings'' \<and>
     (es_winning st = '''' \<longleftrightarrow> dec_Action (es_decision st) = ActionAllow \<and> es_failures st = [])"

text \<open>The states differ only in the readings taken, the timings and the trace.\<close>

definition same_core :: "eval_state \<Rightarrow> eval_state \<Rightarrow> bool" where
  "same_core st st' \<longleftrightarrow> es_decision st' = es_decision st \<and> es_winning st' = es_winning st \<and>
     es_applied st' = es_applied st \<and> es_findings st' = es_findings st \<and> es_failures st' = es_failures st \<and>
     es_replacements st' = es_replacements st"

lemma same_core_trans: "same_core a b \<Longrightarrow> same_core b c \<Longrightarrow> same_core a c"
  by (simp add: same_core_def)

lemma same_core_abstract: "same_core st st' \<Longrightarrow> abstract_of st' = abstract_of st"
  by (simp add: same_core_def abstract_of_def)

lemma same_core_ok: "same_core st st' \<Longrightarrow> state_ok st' = state_ok st"
  by (simp add: same_core_def state_ok_def)

lemma read_clock_snd: "snd (read_clock env st) = st\<lparr>es_tick := Suc (es_tick st)\<rparr>"
  by (simp add: read_clock_def)

lemma read_err_snd: "snd (read_err env c st) = st\<lparr>es_tick := Suc (es_tick st)\<rparr>"
  by (simp add: read_err_def)

text \<open>A stretch of the run: legal steps, and a balanced piece of trace.\<close>

definition advanced :: "compiled_policy list \<Rightarrow> eval_state \<Rightarrow> eval_state \<Rightarrow> bool" where
  "advanced ps st st' \<longleftrightarrow> (\<exists>steps evs. list_all (legal ps) steps \<and>
     abstract_of st' = foldl absorb (abstract_of st) steps \<and> es_events st' = es_events st @ evs \<and> balanced evs)"

lemma advancedI:
  "list_all (legal ps) steps \<Longrightarrow> abstract_of st' = foldl absorb (abstract_of st) steps \<Longrightarrow>
     es_events st' = es_events st @ evs \<Longrightarrow> balanced evs \<Longrightarrow> advanced ps st st'"
  unfolding advanced_def by blast

lemma advanced_same: "same_core st st' \<Longrightarrow> es_events st' = es_events st @ evs \<Longrightarrow> balanced evs \<Longrightarrow> advanced ps st st'"
  by (rule advancedI[of ps "[]"]) (simp_all add: same_core_abstract)

lemma advanced_refl [simp]: "advanced ps st st"
  by (rule advanced_same[of _ _ "[]"]) (simp_all add: same_core_def)

lemma advanced_trans:
  assumes "advanced ps a b" "advanced ps b c"
  shows "advanced ps a c"
proof -
  obtain s1 e1 where 1: "list_all (legal ps) s1" "abstract_of b = foldl absorb (abstract_of a) s1"
    "es_events b = es_events a @ e1" "balanced e1" using assms(1) by (auto simp: advanced_def)
  obtain s2 e2 where 2: "list_all (legal ps) s2" "abstract_of c = foldl absorb (abstract_of b) s2"
    "es_events c = es_events b @ e2" "balanced e2" using assms(2) by (auto simp: advanced_def)
  show ?thesis
    by (rule advancedI[of ps "s1 @ s2" _ _ "e1 @ e2"]) (use 1 2 in \<open>simp_all add: balanced_append\<close>)
qed

lemma advanced_mono: "advanced ps a b \<Longrightarrow> set ps \<subseteq> set qs \<Longrightarrow> advanced qs a b"
  unfolding advanced_def list_all_iff using legal_mono by metis

section \<open>Failures\<close>

lemma record_failure_facts:
  "abstract_of (record_failure f st) = absorb (abstract_of st) (Failed p f)"
  "es_events (record_failure f st) = es_events st" "es_applied (record_failure f st) = es_applied st"
  using applyFailureDecision_verdict[of "es_decision st" "es_winning st" f]
  by (simp_all add: record_failure_def abstract_of_def absorb_def case_prod_beta)

lemma record_failure_ok: "state_ok st \<Longrightarrow> state_ok (record_failure f st)"
  by (auto simp: state_ok_def record_failure_def applyFailureDecision_def failure_action_def failure_reason_def Let_def
      actionPriority_def)

lemma durationMilliseconds_mono: "a \<le> b \<Longrightarrow> durationMilliseconds a \<le> durationMilliseconds b"
proof -
  assume "a \<le> b"
  consider "b \<le> 0" | "0 < b" "a \<le> 0" | "0 < a" using \<open>a \<le> b\<close> by linarith
  then show ?thesis
  proof cases
    case 1
    with \<open>a \<le> b\<close> have "- b div millisecond \<le> - a div millisecond" by (intro zdiv_mono1) auto
    with 1 \<open>a \<le> b\<close> show ?thesis by (simp add: durationMilliseconds_def Milliseconds_def go_div_nonpos Let_def)
  next
    case 2
    then have "- (- a div millisecond) \<le> 0" by (simp add: pos_imp_zdiv_nonneg_iff)
    moreover have "0 \<le> b div millisecond" using 2 by (simp add: pos_imp_zdiv_nonneg_iff)
    ultimately show ?thesis
      using 2 by (auto simp: durationMilliseconds_def Milliseconds_def go_div_nonpos go_div_nonneg Let_def)
  next
    case 3
    with \<open>a \<le> b\<close> have "a div millisecond \<le> b div millisecond" by (intro zdiv_mono1) auto
    moreover have "0 \<le> a div millisecond" using 3 by (simp add: pos_imp_zdiv_nonneg_iff)
    ultimately show ?thesis using 3 \<open>a \<le> b\<close> by (auto simp: durationMilliseconds_def Milliseconds_def go_div_nonneg Let_def)
  qed
qed

lemma detectorFailure_fields:
  "df_PolicyID (detectorFailure pid did scope mode t e) = pid"
  "df_FailureMode (detectorFailure pid did scope mode t e) = mode"
  "df_TimeoutMS (detectorFailure pid did scope mode t e) = durationMilliseconds t"
  "df_DetectorID (detectorFailure pid did scope mode t e) = did"
  "FailureCode_Valid (df_Code (detectorFailure pid did scope mode t e))"
  by (auto simp: detectorFailure_def newFailure_def FailureCode_Valid_def validExecutorFailureCode_def split: option.split)

lemma effectiveDetectorTimeout_le:
  "effectiveDetectorTimeout remaining configured = (scope, t) \<Longrightarrow> t \<le> configured"
  by (auto simp: effectiveDetectorTimeout_def split: option.splits if_splits)

section \<open>One detector\<close>

definition detector_span :: "evaluation_request \<Rightarrow> string \<Rightarrow> string \<Rightarrow> trace_event" where
  "detector_span req pid did = SpanStart ''detector.evaluate'' (span_attrs req pid did)"

lemma execute_detector_facts:
  assumes "execute_detector env run pid pctx cd req st = (res, st')"
  shows "same_core st st' \<and> es_events st' = es_events st @ [detector_span req pid (det_ID (cd_Config cd))]"
    and "res = None \<Longrightarrow> \<exists>c n n'. run env c n cd req = (None, n')"
    and "res = Some (scope, t, Inr out) \<Longrightarrow> \<exists>c n n'. run env c n cd req = (Some (Inr out), n')"
    and "res = Some (scope, t, r) \<Longrightarrow> t \<le> det_Timeout (cd_Config cd)"
proof -
  let ?rem = "map_option (\<lambda>d. d - ev_now env (es_tick st)) (cx_deadline pctx)"
  obtain sc tm where eff: "effectiveDetectorTimeout ?rem (det_Timeout (cd_Config cd)) = (sc, tm)" by (meson surj_pair)
  define c where "c = WithTimeout pctx (ev_now env (Suc (es_tick st))) tm"
  obtain o' n' where run: "run env c (Suc (Suc (Suc (es_tick st)))) cd req = (o', n')" by (meson surj_pair)
  have le: "tm \<le> det_Timeout (cd_Config cd)" using effectiveDetectorTimeout_le[OF eff] .
  note unf = execute_detector_def Let_def read_clock_def read_err_def emit_def eff case_prod_conv
  show "same_core st st' \<and> es_events st' = es_events st @ [detector_span req pid (det_ID (cd_Config cd))]"
    using assms run
    by (cases o'; cases "the o'")
      (auto simp: unf c_def[symmetric] same_core_def detector_span_def split: sum.splits)
  show "res = None \<Longrightarrow> \<exists>c n n'. run env c n cd req = (None, n')"
    using assms run by (cases o') (auto simp: unf c_def[symmetric] split: sum.splits)
  show "res = Some (scope, t, Inr out) \<Longrightarrow> \<exists>c n n'. run env c n cd req = (Some (Inr out), n')"
    using assms run by (cases o') (auto simp: unf c_def[symmetric] split: sum.splits option.splits)
  show "res = Some (scope, t, r) \<Longrightarrow> t \<le> det_Timeout (cd_Config cd)"
    using assms run le by (cases o') (auto simp: unf c_def[symmetric] split: sum.splits option.splits)
qed

text \<open>
  The contract of an executor, under the contexts and readings the evaluator gives it. It follows
  from that of the detectors for the built-in executor.
\<close>

locale sound_executor =
  fixes run :: executor
  assumes returns: "wf_compiled_detector p cd \<Longrightarrow> fst (run env c n cd req) \<noteq> None"
    and findings_owned: "run env c n cd req = (Some (Inr (fs, rs)), n') \<Longrightarrow> f \<in> set fs \<Longrightarrow> labelled (cd_Config cd) f"
    and replacements_placed: "run env c n cd req = (Some (Inr (fs, rs)), n') \<Longrightarrow> list_all wf_replacement rs"
    and redactions_found: "run env c n cd req = (Some (Inr (fs, rs)), n') \<Longrightarrow> redactable (cd_Config cd) \<Longrightarrow> fs \<noteq> [] \<Longrightarrow> rs \<noteq> []"

lemma builtin_Evaluate_cases:
  assumes "builtin_Evaluate env c n cd req = (res, n')"
  obtains e where "res = Some (Inl (ContextError e))"
  | "res = None" "evaluateDetector (ev_library env) cd req = None"
  | out where "res = Some (Inr out)" "evaluateDetector (ev_library env) cd req = Some out"
  using assms by (auto simp: builtin_Evaluate_def split: option.splits)

interpretation builtin_executor: sound_executor builtin_Evaluate
proof (unfold_locales, goal_cases)
  case (1 p cd env c n req)
  obtain res n' where eq: "builtin_Evaluate env c n cd req = (res, n')" by (meson surj_pair)
  from eq show ?case
    by (cases rule: builtin_Evaluate_cases) (use eq builtin.total[OF 1, of "ev_library env" req] in auto)
next
  case (2 env c n cd req fs rs n' f)
  from 2(1) show ?case by (cases rule: builtin_Evaluate_cases) (use 2(2) builtin.owned in auto)
next
  case (3 env c n cd req fs rs n')
  then show ?case by (cases rule: builtin_Evaluate_cases) (use builtin.placed in auto)
next
  case (4 env c n cd req fs rs n')
  from 4(1) show ?case by (cases rule: builtin_Evaluate_cases) (use 4(2,3) builtin.found_replaced in auto)
qed

lemma pass_detector_facts:
  "abstract_of (pass_detector p out st) = (if fst out = [] then abstract_of st else absorb (abstract_of st) (Found p did (fst out)))"
  "es_events (pass_detector p out st) = es_events st @ [SpanEnd ''detector.evaluate'' ''ok'']"
  "es_applied (pass_detector p out st) = es_applied st"
  by (auto simp: pass_detector_def abstract_of_def absorb_def emit_def Let_def actionPriority_verdict max_def not_less)

lemma pass_detector_ok:
  assumes "state_ok st" "spec_Action (pol_Spec p) \<in> {ActionAllow, ActionBlock, ActionRedact, ActionMonitor}"
    and "list_all wf_replacement (snd out)" "spec_Action (pol_Spec p) = ActionRedact \<Longrightarrow> fst out \<noteq> [] \<Longrightarrow> snd out \<noteq> []"
  shows "state_ok (pass_detector p out st)"
  using assms by (auto simp: pass_detector_def state_ok_def emit_def Let_def actionPriority_def)

lemma fail_detector_facts:
  assumes "fail_detector env p did scope t e st = (fl, st')"
  shows "es_events st' = es_events st @ [SpanEnd ''detector.evaluate'' ''error''] \<and> es_applied st' = es_applied st \<and> fl \<noteq> Abort StopPanic"
    and "state_ok st \<Longrightarrow> state_ok st'"
    and "abstract_of st' = abstract_of st \<and> (\<exists>ce. fl = Abort (StopError (ContextEnded ce))) \<or>
      (\<exists>f. abstract_of st' = absorb (abstract_of st) (Failed p f) \<and> df_PolicyID f = Policy_CanonicalID p \<and>
         df_FailureMode f = spec_FailureMode (pol_Spec p) \<and> FailureCode_Valid (df_Code f) \<and> df_DetectorID f = did \<and>
         (t \<le> spec_Timeout (pol_Spec p) \<longrightarrow> df_TimeoutMS f \<le> durationMilliseconds (spec_Timeout (pol_Spec p))))"
proof -
  define st1 where "st1 = snd (read_err env (ev_ctx env) (emit [SpanEnd ''detector.evaluate'' ''error''] st))"
  have core: "same_core st st1" "es_events st1 = es_events st @ [SpanEnd ''detector.evaluate'' ''error'']"
    by (simp_all add: st1_def read_err_def emit_def same_core_def)
  define f where "f = detectorFailure (Policy_CanonicalID p) did scope (spec_FailureMode (pol_Spec p))
    (if scope = FailureScopePolicy \<and> errors_Is e DeadlineExceeded then spec_Timeout (pol_Spec p) else t) e"
  have cases: "st' = st1 \<and> (\<exists>ce. fl = Abort (StopError (ContextEnded ce))) \<or>
      st' = record_failure f st1 \<and> (fl = Break \<or> fl = Continue)"
    using assms by (auto simp: fail_detector_def Let_def st1_def f_def case_prod_beta read_err_snd split: option.splits if_splits)
  show "es_events st' = es_events st @ [SpanEnd ''detector.evaluate'' ''error''] \<and> es_applied st' = es_applied st \<and> fl \<noteq> Abort StopPanic"
    using cases core record_failure_facts(2,3)[of f st1] by (auto simp: same_core_def)
  show "state_ok st \<Longrightarrow> state_ok st'"
    using cases same_core_ok[OF core(1)] record_failure_ok by auto
  show "abstract_of st' = abstract_of st \<and> (\<exists>ce. fl = Abort (StopError (ContextEnded ce))) \<or>
      (\<exists>f. abstract_of st' = absorb (abstract_of st) (Failed p f) \<and> df_PolicyID f = Policy_CanonicalID p \<and>
         df_FailureMode f = spec_FailureMode (pol_Spec p) \<and> FailureCode_Valid (df_Code f) \<and> df_DetectorID f = did \<and>
         (t \<le> spec_Timeout (pol_Spec p) \<longrightarrow> df_TimeoutMS f \<le> durationMilliseconds (spec_Timeout (pol_Spec p))))"
  proof (cases "st' = record_failure f st1")
    case True
    then have "abstract_of st' = absorb (abstract_of st) (Failed p f)"
      using record_failure_facts(1)[of f st1 p] same_core_abstract[OF core(1)] by simp
    then show ?thesis
      by (intro disjI2 exI[of _ f]) (auto simp: f_def detectorFailure_fields intro: durationMilliseconds_mono)
  qed (use cases same_core_abstract[OF core(1)] in auto)
qed

lemma detector_step_cases [consumes 1, case_names ended timeout ran]:
  assumes "detector_step env run p pctx req cd st = (fl, st')"
  obtains e where "fl = Abort (StopError (ContextEnded e))" "st' = snd (read_err env (ev_ctx env) st)"
  | "fl = Break" "st' = record_failure (policy_timeout p) (snd (read_err env pctx (snd (read_err env (ev_ctx env) st))))"
  | res st3 where
      "execute_detector env run (Policy_CanonicalID p) pctx cd req (snd (read_err env pctx (snd (read_err env (ev_ctx env) st)))) = (res, st3)"
      "(fl, st') = (case res of None \<Rightarrow> (Abort StopPanic, st3)
        | Some (scope, timeout, Inl e) \<Rightarrow> fail_detector env p (det_ID (cd_Config cd)) scope timeout e st3
        | Some (scope, timeout, Inr out) \<Rightarrow> (Continue, pass_detector p out st3))"
proof -
  obtain e1 s1 where r1: "read_err env (ev_ctx env) st = (e1, s1)" by (meson surj_pair)
  obtain e2 s2 where r2: "read_err env pctx s1 = (e2, s2)" by (meson surj_pair)
  obtain res st3 where ex: "execute_detector env run (Policy_CanonicalID p) pctx cd req s2 = (res, st3)" by (meson surj_pair)
  note step = assms[unfolded detector_step_def Let_def r1 case_prod_conv r2 ex]
  show thesis
  proof (cases e1)
    case (Some e)
    with step r1 show ?thesis by (intro that(1)) auto
  next
    case None
    show ?thesis
    proof (cases e2)
      case (Some e)
      with None step r1 r2 show ?thesis by (intro that(2)) auto
    next
      case None2: None
      show ?thesis
      proof (rule that(3)[of res st3])
        show "execute_detector env run (Policy_CanonicalID p) pctx cd req (snd (read_err env pctx (snd (read_err env (ev_ctx env) st)))) = (res, st3)"
          by (simp add: r1 r2 ex)
      qed (use step None None2 in simp)
    qed
  qed
qed

definition enter_policy :: "environment \<Rightarrow> policy \<Rightarrow> eval_state \<Rightarrow> eval_state" where
  "enter_policy env p st = st\<lparr>es_applied := append_slice (es_applied st) [Policy_CanonicalID p], es_tick := es_tick st + 3\<rparr>"

lemma policy_step_cases [consumes 1, case_names ended ran]:
  assumes "policy_step env run req c st = (stop, st')"
  obtains e where "stop = Some (StopError (ContextEnded e))" "st' = snd (read_err env (ev_ctx env) st)"
  | now st3 where "detector_loop env run (cp_Config c) (WithTimeout (ev_ctx env) now (spec_Timeout (pol_Spec (cp_Config c)))) req
        (cp_Detectors c) (enter_policy env (cp_Config c) st) = (stop, st3)"
      "stop \<noteq> None \<Longrightarrow> st' = st3" "stop = None \<Longrightarrow> \<exists>t ms. st' = st3\<lparr>es_tick := t, es_policy_ms := ms\<rparr>"
proof -
  let ?p = "cp_Config c"
  obtain e1 s1 where r1: "read_err env (ev_ctx env) st = (e1, s1)" by (meson surj_pair)
  have s1: "s1 = st\<lparr>es_tick := Suc (es_tick st)\<rparr>" using r1 by (simp add: read_err_def)
  define now where "now = ev_now env (Suc (es_tick s1))"
  obtain so st3 where loop: "detector_loop env run ?p (WithTimeout (ev_ctx env) now (spec_Timeout (pol_Spec ?p))) req
        (cp_Detectors c) (enter_policy env ?p st) = (so, st3)" by (meson surj_pair)
  have enter: "s1\<lparr>es_applied := append_slice (es_applied s1) [Policy_CanonicalID ?p], es_tick := Suc (Suc (es_tick s1))\<rparr> = enter_policy env ?p st"
    by (simp add: enter_policy_def s1)
  show thesis
  proof (cases e1)
    case (Some e)
    with assms r1 show ?thesis by (intro that(1)) (auto simp: policy_step_def Let_def)
  next
    case None
    then have "(stop, st') = (case so of Some s \<Rightarrow> (Some s, st3)
      | None \<Rightarrow> (None, st3\<lparr>es_tick := Suc (es_tick st3), es_policy_ms := add_ms (Policy_CanonicalID ?p)
          (Milliseconds (ev_now env (es_tick st3) - ev_now env (es_tick s1))) (es_policy_ms st3)\<rparr>))"
      using assms loop unfolding policy_step_def Let_def r1 case_prod_conv
      by (cases so) (auto simp: read_clock_def enter now_def)
    with loop show ?thesis by (intro that(2)[of now st3]; cases so) auto
  qed
qed

context sound_executor
begin

lemma detector_step_facts:
  assumes step: "detector_step env run p pctx req cd st = (fl, st')"
    and wf: "wf_compiled_detector p cd" "spec_Action (pol_Spec p) \<in> {ActionAllow, ActionBlock, ActionRedact, ActionMonitor}"
    and c: "c \<in> set ps" "cp_Config c = p" "cd \<in> set (cp_Detectors c)"
  shows "fl \<noteq> Abort StopPanic \<and> advanced ps st st' \<and> es_applied st' = es_applied st \<and> (state_ok st \<longrightarrow> state_ok st')"
proof -
  let ?pid = "Policy_CanonicalID p" and ?did = "det_ID (cd_Config cd)"
  define st1 where "st1 = snd (read_err env (ev_ctx env) st)"
  define st2 where "st2 = snd (read_err env pctx st1)"
  have core: "same_core st st2" "es_events st2 = es_events st" "same_core st st1" "es_events st1 = es_events st"
    by (simp_all add: st1_def st2_def read_err_snd same_core_def)
  show ?thesis using step
  proof (cases rule: detector_step_cases)
    case (ended e)
    then have ended: "fl = Abort (StopError (ContextEnded e))" "st' = st1" by (simp_all add: st1_def)
    then show ?thesis using core advanced_same[of st st1 "[]"] same_core_ok[OF core(3)] by (simp add: same_core_def)
  next
    case timeout
    then have timeout: "fl = Break" "st' = record_failure (policy_timeout p) st2" by (simp_all add: st1_def st2_def)
    have "legal ps (Failed p (policy_timeout p))"
      using c by (auto simp: policy_timeout_def newFailure_def FailureCode_Valid_def)
    then have "advanced ps st st'"
      using record_failure_facts[of "policy_timeout p" st2] core same_core_abstract[OF core(1)] timeout
      by (intro advancedI[of ps "[Failed p (policy_timeout p)]" _ _ "[]"]) (auto simp: record_failure_facts(1)[of _ _ p])
    then show ?thesis
      using timeout record_failure_facts(3)[of "policy_timeout p" st2] record_failure_ok[of st2] same_core_ok[OF core(1)] core(1)
      by (auto simp: same_core_def)
  next
    case (ran res st3)
    note ran = ran[folded st1_def, folded st2_def]
    note ex = execute_detector_facts[OF ran(1)]
    have core3: "same_core st st3" "es_events st3 = es_events st @ [detector_span req ?pid ?did]"
      using ex(1) core same_core_trans by auto
    have "res \<noteq> None" using ex(2) returns[OF wf(1)] by (metis fst_conv)
    then obtain scope t r where res: "res = Some (scope, t, r)" by (metis option.exhaust surj_pair)
    have t: "t \<le> spec_Timeout (pol_Spec p)" using ex(4)[OF res] wf(1) by (simp add: wf_defs Let_def)
    have bal: "balanced [detector_span req ?pid ?did, SpanEnd ''detector.evaluate'' s]" for s
      by (simp add: detector_span_def balanced_span_Cons)
    show ?thesis
    proof (cases r)
      case (Inl e)
      then have fail: "fail_detector env p ?did scope t e st3 = (fl, st')" using ran(2) res by simp
      note ff = fail_detector_facts[OF fail]
      have ev: "es_events st' = es_events st @ [detector_span req ?pid ?did, SpanEnd ''detector.evaluate'' ''error'']"
        using ff(1) core3(2) by simp
      have "\<exists>steps. list_all (legal ps) steps \<and> abstract_of st' = foldl absorb (abstract_of st) steps"
        using ff(3)
      proof (elim disjE conjE exE)
        fix f assume f: "abstract_of st' = absorb (abstract_of st3) (Failed p f)" "df_PolicyID f = ?pid"
          "df_FailureMode f = spec_FailureMode (pol_Spec p)" "FailureCode_Valid (df_Code f)" "df_DetectorID f = ?did"
          "t \<le> spec_Timeout (pol_Spec p) \<longrightarrow> df_TimeoutMS f \<le> durationMilliseconds (spec_Timeout (pol_Spec p))"
        then show ?thesis
          using c t same_core_abstract[OF core3(1)] by (intro exI[of _ "[Failed p f]"]) auto
      qed (use same_core_abstract[OF core3(1)] in \<open>auto intro: exI[of _ "[]"]\<close>)
      then have "advanced ps st st'" using ev bal by (auto intro: advancedI)
      then show ?thesis using ff(1,2) core3(1) same_core_ok[OF core3(1)] by (auto simp: same_core_def)
    next
      case (Inr out)
      then have st': "fl = Continue" "st' = pass_detector p out st3" using ran(2) res by auto
      obtain c' n n' where run: "run env c' n cd req = (Some (Inr (fst out, snd out)), n')"
        using ex(3)[of scope t out] res Inr by auto
      note pf = pass_detector_facts[of p out st3]
      have "list_all (legal ps) (if fst out = [] then [] else [Found p ?did (fst out)])"
        using c findings_owned[OF run] by auto
      then have "advanced ps st st'"
        using pf(1)[of ?did] pf(2) core3 same_core_abstract[OF core3(1)] bal st'(2)
        by (intro advancedI[of ps "if fst out = [] then [] else [Found p ?did (fst out)]" _ _
          "[detector_span req ?pid ?did, SpanEnd ''detector.evaluate'' ''ok'']"]) auto
      moreover have "redactable (cd_Config cd)" if "spec_Action (pol_Spec p) = ActionRedact"
        using builtin.redacting_policy[OF wf(1) that] .
      then have "state_ok st3 \<longrightarrow> state_ok st'"
        unfolding st'(2) using pass_detector_ok[OF _ wf(2) replacements_placed[OF run]] redactions_found[OF run] by blast
      ultimately show ?thesis using st' pf(3) core3(1) same_core_ok[OF core3(1)] by (auto simp: same_core_def)
    qed
  qed
qed

lemma detector_loop_facts:
  assumes "detector_loop env run p pctx req cds st = (stop, st')"
    and "spec_Action (pol_Spec p) \<in> {ActionAllow, ActionBlock, ActionRedact, ActionMonitor}"
    and "c \<in> set ps" "cp_Config c = p" "set cds \<subseteq> set (cp_Detectors c)" "list_all (wf_compiled_detector p) cds"
  shows "stop \<noteq> Some StopPanic \<and> advanced ps st st' \<and> es_applied st' = es_applied st \<and> (state_ok st \<longrightarrow> state_ok st')"
  using assms(1,5,6)
proof (induction cds arbitrary: st)
  case (Cons cd cds)
  obtain fl st1 where step: "detector_step env run p pctx req cd st = (fl, st1)" by (meson surj_pair)
  have 1: "fl \<noteq> Abort StopPanic \<and> advanced ps st st1 \<and> es_applied st1 = es_applied st \<and> (state_ok st \<longrightarrow> state_ok st1)"
    by (rule detector_step_facts[OF step _ assms(2,3,4)]) (use Cons.prems in auto)
  show ?case
  proof (cases fl)
    case Continue
    then have "detector_loop env run p pctx req cds st1 = (stop, st')" using Cons.prems(1) step by simp
    from Cons.IH[OF this] Cons.prems(2,3) 1 show ?thesis by (auto intro: advanced_trans)
  qed (use 1 step Cons.prems(1) in auto)
qed auto

lemma policy_step_facts:
  assumes "policy_step env run req c st = (stop, st')" "wf_compiled_policy c" "c \<in> set ps"
  shows "stop \<noteq> Some StopPanic \<and> advanced ps st st' \<and> (state_ok st \<longrightarrow> state_ok st') \<and>
    (stop = None \<longrightarrow> es_applied st' = append_slice (es_applied st) [Policy_CanonicalID (cp_Config c)])"
proof -
  let ?p = "cp_Config c" and ?st2 = "enter_policy env (cp_Config c) st"
  have core: "abstract_of ?st2 = abstract_of st" "state_ok ?st2 = state_ok st" "es_events ?st2 = es_events st"
    "es_applied ?st2 = append_slice (es_applied st) [Policy_CanonicalID ?p]"
    by (simp_all add: enter_policy_def abstract_of_def state_ok_def)
  have adv: "advanced ps st ?st2"
    by (rule advancedI[of ps "[]" _ _ "[]"]) (simp_all add: core)
  show ?thesis using assms(1)
  proof (cases rule: policy_step_cases)
    case (ended e)
    then have "same_core st st'" "es_events st' = es_events st" by (simp_all add: read_err_snd same_core_def)
    with ended(1) show ?thesis using advanced_same[of st st' "[]"] same_core_ok by simp
  next
    case (ran now st3)
    have facts: "stop \<noteq> Some StopPanic \<and> advanced ps ?st2 st3 \<and> es_applied st3 = es_applied ?st2 \<and> (state_ok ?st2 \<longrightarrow> state_ok st3)"
      by (rule detector_loop_facts[OF ran(1) _ assms(3) refl]) (use assms(2) in \<open>auto simp: wf_defs Let_def\<close>)
    have last: "same_core st3 st' \<and> es_events st' = es_events st3"
      using ran(2,3) by (cases stop) (auto simp: same_core_def)
    then have "advanced ps st3 st'" using advanced_same[of st3 st' "[]"] by simp
    with facts adv have "advanced ps st st'" using advanced_trans by blast
    with facts last core same_core_ok[of st3 st'] show ?thesis by (auto simp: same_core_def)
  qed
qed

lemma policy_loop_facts:
  assumes "policy_loop env run req cs st = (stop, st')" "list_all wf_compiled_policy cs" "set cs \<subseteq> set ps"
  shows "stop \<noteq> Some StopPanic \<and> advanced ps st st' \<and> (state_ok st \<longrightarrow> state_ok st') \<and>
    (stop = None \<longrightarrow> es_applied st' = append_slice (es_applied st) (map (Policy_CanonicalID \<circ> cp_Config) cs))"
  using assms
proof (induction cs arbitrary: st)
  case (Cons c cs)
  obtain s1 st1 where step: "policy_step env run req c st = (s1, st1)" by (meson surj_pair)
  have 1: "s1 \<noteq> Some StopPanic \<and> advanced ps st st1 \<and> (state_ok st \<longrightarrow> state_ok st1) \<and>
    (s1 = None \<longrightarrow> es_applied st1 = append_slice (es_applied st) [Policy_CanonicalID (cp_Config c)])"
    by (rule policy_step_facts[OF step]) (use Cons.prems in auto)
  show ?case
  proof (cases s1)
    case None
    then have "policy_loop env run req cs st1 = (stop, st')" using Cons.prems(1) step by simp
    from Cons.IH[OF this] Cons.prems(2,3) 1 None show ?thesis by (auto intro: advanced_trans)
  qed (use 1 step Cons.prems(1) in auto)
qed simp

end

end
