(* ===== verification/GR_Evaluation.thy ===== *)
theory GR_Evaluation
  imports GR_Verdicts
begin

text \<open>
  What an evaluation guarantees, for the evaluator the service builds (\<open>New_evaluator\<close>) over a
  resolver that \<open>NewResolver\<close> accepted: the refinement of the abstract machine of \<open>GR_Verdicts\<close>, and
  the consequences for callers. The clock, the timers and the caller's context are arbitrary.
\<close>

section \<open>The end of a run\<close>

definition response_abstract :: "evaluation_response \<Rightarrow> abstract_state" where
  "response_abstract resp = \<lparr>ab_verdict = verdict_of (dec_Action (resp_Decision resp)),
     ab_findings = resp_Findings resp, ab_failures = resp_DetectorFailures resp\<rparr>"

lemma finish_facts:
  assumes "state_ok st"
  obtains resp evs where "er_outcome (finish env req ident started st) = Response resp"
    "response_abstract resp = abstract_of st" "resp_AppliedPolicies resp = es_applied st"
    "dec_Action (resp_Decision resp) = dec_Action (es_decision st)"
    "dec_Reason (resp_Decision resp) = (if es_winning st = '''' then ''no policy findings'' else es_winning st)"
    "er_events (finish env req ident started st) = es_events st @ evs" "balanced evs"
    "dec_Action (es_decision st) \<noteq> ActionRedact \<Longrightarrow> dec_TransformedContent (resp_Decision resp) = None
       \<and> er_content (finish env req ident started st) = req_Content req"
    "dec_Action (es_decision st) = ActionRedact \<Longrightarrow> es_replacements st \<noteq> [] \<and> (\<exists>content.
       applyReplacements (lib_unicode (ev_library env)) (req_Content req) (es_replacements st) =
         Some (content, er_content (finish env req ident started st)) \<and>
       dec_TransformedContent (resp_Decision resp) = Some content)"
proof (cases "dec_Action (es_decision st) = ActionRedact")
  case False
  let ?r = "finish env req ident started st"
  let ?at = "span_attrs req '''' ''''"
  have "dec_TransformedContent (es_decision st) = None" "dec_Reason (es_decision st) = ''no policy findings''"
    using assms by (simp_all add: state_ok_def)
  with False show thesis
    by (intro that[of "case er_outcome ?r of Response resp \<Rightarrow> resp" "[SpanStart ''decision.aggregate'' ?at, SpanEnd ''decision.aggregate'' ''ok'']"])
      (simp_all add: finish_def Let_def emit_def read_clock_def build_response_def response_abstract_def abstract_of_def balanced_span_Cons)
next
  case True
  let ?r = "finish env req ident started st"
  let ?at = "span_attrs req '''' ''''"
  from assms True have rs: "es_replacements st \<noteq> []" "list_all wf_replacement (es_replacements st)"
    "dec_Reason (es_decision st) = ''no policy findings''" by (simp_all add: state_ok_def)
  obtain content caller where app: "applyReplacements (lib_unicode (ev_library env)) (req_Content req) (es_replacements st) = Some (content, caller)"
    using applyReplacements_total[OF rs(2)] by blast
  show thesis
    by (rule that[of "case er_outcome ?r of Response resp \<Rightarrow> resp" "[SpanStart ''decision.aggregate'' ?at, SpanEnd ''decision.aggregate'' ''ok'',
        SpanStart ''content.transform'' ?at, SpanEnd ''content.transform'' ''ok'']"])
      (use True rs app in \<open>simp_all add: finish_def Let_def emit_def read_clock_def build_response_def response_abstract_def abstract_of_def balanced_span_Cons\<close>)
qed

section \<open>The cases of \<open>Evaluate\<close>\<close>

abbreviation request_policies :: "resolver \<Rightarrow> evaluation_request \<Rightarrow> (resolve_error, compiled_policy list) result" where
  "request_policies r req \<equiv> Resolve r (req_TenantID req) (gs_Profile (req_Guardrails req)) (gs_Policies (req_Guardrails req)) (req_Stage req)"

text \<open>The state the loop starts from.\<close>

definition loop_start :: "evaluation_request \<Rightarrow> eval_state" where
  "loop_start req = emit (resolve_events req ''ok'') (start_state 3)"

lemma loop_start_facts [simp]:
  "abstract_of (loop_start req) = abstract_start" "state_ok (loop_start req)" "es_applied (loop_start req) = None"
  "es_events (loop_start req) = resolve_events req ''ok''"
  by (simp_all add: loop_start_def emit_def start_state_def abstract_of_def abstract_start_def state_ok_def)

lemma balanced_resolve_events: "balanced (resolve_events req s)"
  by (simp add: resolve_events_def balanced_span_Cons)

lemma Evaluate_outcome [simp]: "er_outcome (Evaluate el env req) = er_outcome (Evaluate_body el env req)"
  "er_content (Evaluate el env req) = er_content (Evaluate_body el env req)"
  by (simp_all add: Evaluate_def end_evaluation_def)

lemma Evaluate_cases [consumes 1, case_names started unresolved stopped responded]:
  assumes wf: "wf_resolver r"
  obtains e where "er_outcome (Evaluate (New_evaluator r) env req) = EvalFailed (ContextEnded e)"
      "er_events (Evaluate_body (New_evaluator r) env req) = []"
      "ctx_Err (ev_ctx env) (ev_fired env 1) = Some e"
  | e where "er_outcome (Evaluate (New_evaluator r) env req) = EvalFailed (Unresolved e)"
      "er_events (Evaluate_body (New_evaluator r) env req) = resolve_events req ''error''"
      "request_policies r req = Inl e"
  | ps e st where "er_outcome (Evaluate (New_evaluator r) env req) = EvalFailed e"
      "er_events (Evaluate_body (New_evaluator r) env req) = es_events st"
      "request_policies r req = Inr ps" "policy_loop env builtin_Evaluate req ps (loop_start req) = (Some (StopError e), st)"
      "advanced ps (loop_start req) st"
  | ps st where "request_policies r req = Inr ps" "policy_loop env builtin_Evaluate req ps (loop_start req) = (None, st)"
      "advanced ps (loop_start req) st" "state_ok st" "es_applied st = append_slice None (map (Policy_CanonicalID \<circ> cp_Config) ps)"
      "Evaluate_body (New_evaluator r) env req = finish env req (newID env 2) (ev_now env 0) st"
proof (cases "ctx_Err (ev_ctx env) (ev_fired env 1)")
  case (Some e)
  then show thesis by (intro that(1)) (simp_all add: Evaluate_body_def)
next
  case None
  show thesis
  proof (cases "request_policies r req")
    case (Inl e)
    with None show thesis by (intro that(2)) (simp_all add: Evaluate_body_def New_evaluator_def)
  next
    case (Inr ps)
    obtain stop st where loop: "policy_loop env builtin_Evaluate req ps (loop_start req) = (stop, st)" by (meson surj_pair)
    have "list_all wf_compiled_policy ps"
      using policy_res.resolved_wf[OF wf Inr] by (simp add: list_all_iff)
    from builtin_executor.policy_loop_facts[OF loop this, of ps]
    have facts: "stop \<noteq> Some StopPanic" "advanced ps (loop_start req) st" "state_ok st"
      "stop = None \<Longrightarrow> es_applied st = append_slice None (map (Policy_CanonicalID \<circ> cp_Config) ps)" by auto
    note body = Evaluate_body_def New_evaluator_def None[unfolded One_nat_def] Inr loop[unfolded loop_start_def] Let_def
    show thesis
    proof (cases stop)
      case None
      then show thesis using facts Inr loop by (intro that(4)[of ps st]) (simp_all add: body)
    next
      case (Some s)
      with facts(1) obtain e where s: "s = StopError e" by (cases s) auto
      then show thesis using facts Inr loop Some by (intro that(3)[of e st ps]) (simp_all add: body)
    qed
  qed
qed

text \<open>The refinement, in the form its consequences use.\<close>

lemma Evaluate_steps:
  assumes "wf_resolver r" "er_outcome (Evaluate (New_evaluator r) env req) = Response resp"
  obtains ps steps st where "request_policies r req = Inr ps" "list_all (legal ps) steps"
    "response_abstract resp = foldl absorb abstract_start steps"
    "resp_AppliedPolicies resp = append_slice None (map (Policy_CanonicalID \<circ> cp_Config) ps)"
    "dec_Action (resp_Decision resp) \<in> {ActionAllow, ActionMonitor, ActionRedact, ActionBlock}"
    "dec_Action (resp_Decision resp) = ActionAllow \<Longrightarrow> resp_DetectorFailures resp = [] \<Longrightarrow> dec_Reason (resp_Decision resp) = ''no policy findings''"
    "dec_Action (resp_Decision resp) \<noteq> ActionRedact \<Longrightarrow> dec_TransformedContent (resp_Decision resp) = None
       \<and> er_content (Evaluate (New_evaluator r) env req) = req_Content req"
    "dec_Action (resp_Decision resp) = ActionRedact \<Longrightarrow> \<exists>rs content. rs \<noteq> [] \<and> list_all wf_replacement rs \<and>
       applyReplacements (lib_unicode (ev_library env)) (req_Content req) rs =
         Some (content, er_content (Evaluate (New_evaluator r) env req)) \<and>
       dec_TransformedContent (resp_Decision resp) = Some content"
  using assms(1)
proof (cases rule: Evaluate_cases[of r env req])
  case (responded ps st)
  note fin = finish_facts[OF responded(4), of env req "newID env 2" "ev_now env 0", folded responded(6)]
  obtain steps where steps: "list_all (legal ps) steps" "abstract_of st = foldl absorb abstract_start steps"
    using responded(3) by (auto simp: advanced_def)
  have ok: "dec_Action (es_decision st) \<in> {ActionAllow, ActionMonitor, ActionRedact, ActionBlock}"
    "list_all wf_replacement (es_replacements st)"
    "dec_Action (es_decision st) = ActionAllow \<Longrightarrow> es_failures st = [] \<Longrightarrow> es_winning st = ''''"
    using responded(4) by (simp_all add: state_ok_def)
  show thesis
  proof (rule fin)
    fix resp' evs
    assume r: "er_outcome (Evaluate_body (New_evaluator r) env req) = Response resp'"
    with assms(2) have [simp]: "resp' = resp" by simp
    assume "response_abstract resp' = abstract_of st" "resp_AppliedPolicies resp' = es_applied st"
      "dec_Action (resp_Decision resp') = dec_Action (es_decision st)"
      "dec_Reason (resp_Decision resp') = (if es_winning st = '''' then ''no policy findings'' else es_winning st)"
      "dec_Action (es_decision st) \<noteq> ActionRedact \<Longrightarrow> dec_TransformedContent (resp_Decision resp') = None
         \<and> er_content (Evaluate_body (New_evaluator r) env req) = req_Content req"
      "dec_Action (es_decision st) = ActionRedact \<Longrightarrow> es_replacements st \<noteq> [] \<and> (\<exists>content.
         applyReplacements (lib_unicode (ev_library env)) (req_Content req) (es_replacements st) =
           Some (content, er_content (Evaluate_body (New_evaluator r) env req)) \<and>
         dec_TransformedContent (resp_Decision resp') = Some content)"
    then show thesis
      using responded(5) steps ok
      by (intro that[OF responded(1) steps(1)]) (auto simp: response_abstract_def abstract_of_def)
  qed
qed (use assms(2) in simp_all)

text \<open>What a run of the abstract machine from the start returns, and where it comes from.\<close>

lemma run_of_steps:
  assumes "response_abstract resp = foldl absorb abstract_start steps"
  shows "verdict_of (dec_Action (resp_Decision resp)) = foldl max Allow (map step_verdict steps)"
    "resp_Findings resp = concat (map step_findings steps)"
    "resp_DetectorFailures resp = concat (map step_failures steps)"
  using arg_cong[OF assms, of ab_verdict] arg_cong[OF assms, of ab_findings] arg_cong[OF assms, of ab_failures]
  unfolding foldl_absorb by (simp_all add: response_abstract_def abstract_start_def)

lemma step_below: "st \<in> set steps \<Longrightarrow> step_verdict st \<le> foldl max Allow (map step_verdict steps)"
  by (rule foldl_max_mem) simp

lemma failure_step:
  assumes "f \<in> set (concat (map step_failures steps))"
  obtains p where "Failed p f \<in> set steps"
proof -
  from assms obtain st where st: "st \<in> set steps" "f \<in> set (step_failures st)" by auto
  then show thesis using that by (cases st rule: step.exhaust) auto
qed

lemma finding_step:
  assumes "f \<in> set (concat (map step_findings steps))"
  obtains p did fs where "Found p did fs \<in> set steps" "f \<in> set fs"
proof -
  from assms obtain st where st: "st \<in> set steps" "f \<in> set (step_findings st)" by auto
  then show thesis using that by (cases st rule: step.exhaust) auto
qed

lemma failure_below:
  "f \<in> set (concat (map step_failures steps)) \<Longrightarrow> failure_verdict f \<le> foldl max Allow (map step_verdict steps)"
  by (elim failure_step) (metis step_below step_verdict.simps(2))

lemma legal_labelled:
  assumes "list_all (legal ps) steps" "Found p did fs \<in> set steps" "f \<in> set fs"
  shows "\<exists>c \<in> set ps. cp_Config c = p \<and> (\<exists>cd \<in> set (cp_Detectors c). labelled (cd_Config cd) f)"
proof -
  have "legal ps (Found p did fs)" using assms(1,2) unfolding list_all_iff by blast
  with assms(3) show ?thesis by auto
qed

lemma legal_finding:
  assumes "list_all (legal ps) steps" "Found p did fs \<in> set steps" "f \<in> set fs"
  shows "\<exists>c \<in> set ps. cp_Config c = p \<and> fi_DetectorID f \<in> (det_ID \<circ> cd_Config) ` set (cp_Detectors c)"
  using legal_labelled[OF assms] by (auto simp: labelled_def)

lemma finding_below:
  assumes "list_all (legal ps) steps" "f \<in> set (concat (map step_findings steps))"
  shows "\<exists>c \<in> set ps. fi_DetectorID f \<in> (det_ID \<circ> cd_Config) ` set (cp_Detectors c) \<and>
     verdict_of (spec_Action (pol_Spec (cp_Config c))) \<le> foldl max Allow (map step_verdict steps)"
proof -
  obtain p did fs where st: "Found p did fs \<in> set steps" "f \<in> set fs" using finding_step[OF assms(2)] .
  from legal_finding[OF assms(1) st] step_below[OF st(1)] show ?thesis by auto
qed

text \<open>Every name in a response comes from the configuration of the resolved policies, or from the request.\<close>

lemma finish_request_id:
  "er_outcome (finish env req ident started st) = Response resp \<Longrightarrow> resp_RequestID resp = req_RequestID req"
  by (auto simp: finish_def Let_def build_response_def emit_def read_clock_def split: if_splits option.splits)

lemma response_configured:
  assumes "wf_resolver r" "er_outcome (Evaluate (New_evaluator r) env req) = Response resp"
  obtains ps where "request_policies r req = Inr ps" "resp_AppliedPolicies resp = append_slice None (map (Policy_CanonicalID \<circ> cp_Config) ps)"
    "resp_RequestID resp = req_RequestID req"
    "dec_Action (resp_Decision resp) \<in> {ActionAllow, ActionMonitor, ActionRedact, ActionBlock}"
    "\<And>f. f \<in> set (resp_Findings resp) \<Longrightarrow> \<exists>c \<in> set ps. \<exists>cd \<in> set (cp_Detectors c). labelled (cd_Config cd) f"
    "\<And>f. f \<in> set (resp_DetectorFailures resp) \<Longrightarrow> FailureCode_Valid (df_Code f) \<and> (\<exists>c \<in> set ps.
       df_PolicyID f = Policy_CanonicalID (cp_Config c) \<and> df_FailureMode f = spec_FailureMode (pol_Spec (cp_Config c)) \<and>
       df_DetectorID f \<in> insert '''' ((det_ID \<circ> cd_Config) ` set (cp_Detectors c)))"
proof -
  obtain ps steps where s: "request_policies r req = Inr ps" "list_all (legal ps) steps"
    "response_abstract resp = foldl absorb abstract_start steps" "resp_AppliedPolicies resp = append_slice None (map (Policy_CanonicalID \<circ> cp_Config) ps)"
    "dec_Action (resp_Decision resp) \<in> {ActionAllow, ActionMonitor, ActionRedact, ActionBlock}"
    by (rule Evaluate_steps[OF assms])
  have ident: "resp_RequestID resp = req_RequestID req"
    using assms(1)
  proof (cases rule: Evaluate_cases[of r env req])
    case (responded qs st)
    then show ?thesis using assms(2) finish_request_id by simp
  qed (use assms(2) in simp_all)
  have finding: "\<exists>c \<in> set ps. \<exists>cd \<in> set (cp_Detectors c). labelled (cd_Config cd) f" if f: "f \<in> set (resp_Findings resp)" for f
  proof -
    obtain p did fs where st: "Found p did fs \<in> set steps" "f \<in> set fs"
      using finding_step[OF f[unfolded run_of_steps(2)[OF s(3)]]] .
    from legal_labelled[OF s(2) st] show ?thesis by auto
  qed
  have failure: "FailureCode_Valid (df_Code f) \<and> (\<exists>c \<in> set ps.
       df_PolicyID f = Policy_CanonicalID (cp_Config c) \<and> df_FailureMode f = spec_FailureMode (pol_Spec (cp_Config c)) \<and>
       df_DetectorID f \<in> insert '''' ((det_ID \<circ> cd_Config) ` set (cp_Detectors c)))"
    if f: "f \<in> set (resp_DetectorFailures resp)" for f
  proof -
    obtain p where "Failed p f \<in> set steps" using failure_step[OF f[unfolded run_of_steps(3)[OF s(3)]]] .
    then have "legal ps (Failed p f)" using s(2) unfolding list_all_iff by blast
    then show ?thesis by auto
  qed
  show thesis by (rule that[OF s(1,4) ident s(5) finding failure])
qed

lemma verdict_attained:
  assumes "list_all (legal ps) steps" "foldl max Allow (map step_verdict steps) \<noteq> Allow"
  shows "(\<exists>f \<in> set (concat (map step_failures steps)). failure_verdict f = foldl max Allow (map step_verdict steps)) \<or>
    (\<exists>f \<in> set (concat (map step_findings steps)). \<exists>c \<in> set ps. fi_DetectorID f \<in> (det_ID \<circ> cd_Config) ` set (cp_Detectors c) \<and>
       verdict_of (spec_Action (pol_Spec (cp_Config c))) = foldl max Allow (map step_verdict steps))"
proof -
  let ?v = "foldl max Allow (map step_verdict steps)"
  from foldl_max_from[of Allow "map step_verdict steps"] assms(2) obtain st where st: "st \<in> set steps" "step_verdict st = ?v" by auto
  have legal: "legal ps st" using assms(1) st(1) by (simp add: list_all_iff)
  show ?thesis
  proof (cases st rule: step.exhaust)
    case (Found p did fs)
    with legal obtain f where f: "f \<in> set fs" by (cases fs) auto
    with Found st have "f \<in> set (concat (map step_findings steps))" by force
    with legal_finding[OF assms(1), of p did fs f] f Found st show ?thesis by auto
  next
    case (Failed p f)
    with st have "f \<in> set (concat (map step_failures steps))" by force
    with Failed st(2) show ?thesis by auto
  qed
qed

section \<open>Refinement\<close>

text \<open>
  C9. Every response is a run of the abstract machine: there is a sequence of steps, each a finding
  or a failure of a policy that was resolved for the request, such that the findings and failures of
  the response are those of the steps in order, and its action is the highest any step calls for.
\<close>

theorem Evaluate_refines:
  assumes "wf_resolver r" "er_outcome (Evaluate (New_evaluator r) env req) = Response resp"
  shows "\<exists>ps steps. Resolve r (req_TenantID req) (gs_Profile (req_Guardrails req)) (gs_Policies (req_Guardrails req)) (req_Stage req) = Inr ps \<and>
    list_all (legal ps) steps \<and> response_abstract resp = foldl absorb abstract_start steps"
  using Evaluate_steps[OF assms] by blast

text \<open>
  C10. The action of a response is justified. No finding and no failure it reports calls for a higher
  action; and unless it is allow, some resolved policy with that action found something, or some
  failure was handled in the mode that gives that action.
\<close>

theorem decision_justified:
  assumes "wf_resolver r" "er_outcome (Evaluate (New_evaluator r) env req) = Response resp"
  shows "\<exists>ps. Resolve r (req_TenantID req) (gs_Profile (req_Guardrails req)) (gs_Policies (req_Guardrails req)) (req_Stage req) = Inr ps \<and>
    (\<forall>f \<in> set (resp_DetectorFailures resp). verdict_of (failure_action (df_FailureMode f)) \<le> verdict_of (dec_Action (resp_Decision resp))) \<and>
    (\<forall>f \<in> set (resp_Findings resp). \<exists>c \<in> set ps. fi_DetectorID f \<in> (det_ID \<circ> cd_Config) ` set (cp_Detectors c) \<and>
       verdict_of (spec_Action (pol_Spec (cp_Config c))) \<le> verdict_of (dec_Action (resp_Decision resp))) \<and>
    (dec_Action (resp_Decision resp) \<noteq> ActionAllow \<longrightarrow>
      (\<exists>f \<in> set (resp_DetectorFailures resp). verdict_of (failure_action (df_FailureMode f)) = verdict_of (dec_Action (resp_Decision resp))) \<or>
      (\<exists>f \<in> set (resp_Findings resp). \<exists>c \<in> set ps. fi_DetectorID f \<in> (det_ID \<circ> cd_Config) ` set (cp_Detectors c) \<and>
         verdict_of (spec_Action (pol_Spec (cp_Config c))) = verdict_of (dec_Action (resp_Decision resp))))"
proof -
  obtain ps steps where s: "request_policies r req = Inr ps" "list_all (legal ps) steps"
    "response_abstract resp = foldl absorb abstract_start steps"
    "dec_Action (resp_Decision resp) \<in> {ActionAllow, ActionMonitor, ActionRedact, ActionBlock}"
    by (rule Evaluate_steps[OF assms])
  note eq = run_of_steps[OF s(3)]
  have na: "verdict_of (dec_Action (resp_Decision resp)) \<noteq> Allow" if "dec_Action (resp_Decision resp) \<noteq> ActionAllow"
    using that s(4) by auto
  show ?thesis
  proof (intro exI[of _ ps] conjI ballI impI s(1))
    fix f assume "f \<in> set (resp_DetectorFailures resp)"
    then show "verdict_of (failure_action (df_FailureMode f)) \<le> verdict_of (dec_Action (resp_Decision resp))"
      unfolding eq using failure_below by (simp add: failure_verdict_def)
  next
    fix f assume "f \<in> set (resp_Findings resp)"
    then show "\<exists>c \<in> set ps. fi_DetectorID f \<in> (det_ID \<circ> cd_Config) ` set (cp_Detectors c) \<and>
       verdict_of (spec_Action (pol_Spec (cp_Config c))) \<le> verdict_of (dec_Action (resp_Decision resp))"
      unfolding eq using finding_below[OF s(2)] by blast
  next
    assume "dec_Action (resp_Decision resp) \<noteq> ActionAllow"
    from verdict_attained[OF s(2) na[OF this, unfolded eq(1)]] show
      "(\<exists>f \<in> set (resp_DetectorFailures resp). verdict_of (failure_action (df_FailureMode f)) = verdict_of (dec_Action (resp_Decision resp))) \<or>
       (\<exists>f \<in> set (resp_Findings resp). \<exists>c \<in> set ps. fi_DetectorID f \<in> (det_ID \<circ> cd_Config) ` set (cp_Detectors c) \<and>
         verdict_of (spec_Action (pol_Spec (cp_Config c))) = verdict_of (dec_Action (resp_Decision resp)))"
      unfolding eq failure_verdict_def by blast
  qed
qed

text \<open>
  C11. A failure handled in closed mode blocks: whatever else happened, the action is block and no
  content is returned.
\<close>

theorem closed_failure_blocks:
  assumes "wf_resolver r" "er_outcome (Evaluate (New_evaluator r) env req) = Response resp"
    and "f \<in> set (resp_DetectorFailures resp)" "df_FailureMode f = FailureClosed"
  shows "dec_Action (resp_Decision resp) = ActionBlock \<and> dec_TransformedContent (resp_Decision resp) = None"
proof -
  obtain ps steps where s: "list_all (legal ps) steps" "response_abstract resp = foldl absorb abstract_start steps"
    "dec_Action (resp_Decision resp) \<in> {ActionAllow, ActionMonitor, ActionRedact, ActionBlock}"
    "dec_Action (resp_Decision resp) \<noteq> ActionRedact \<Longrightarrow> dec_TransformedContent (resp_Decision resp) = None"
    by (rule Evaluate_steps[OF assms(1,2)]) blast
  have "f \<in> set (concat (map step_failures steps))" using assms(3) unfolding run_of_steps[OF s(2)] .
  from failure_below[OF this] have "Block \<le> verdict_of (dec_Action (resp_Decision resp))"
    unfolding run_of_steps[OF s(2)] using assms(4) by (simp add: failure_verdict_def failure_action_def)
  then show ?thesis using s(3,4) by (auto simp: less_eq_verdict_def)
qed

lemma mandatory_in_response:
  assumes "wf_resolver r" "er_outcome (Evaluate (New_evaluator r) env req) = Response resp"
    and "i \<in> set (mandatory_ids r (req_TenantID req))" "map_of (rs_policies r) i = Some c" "cp_supports c (req_Stage req)"
  shows "i \<in> set (elems (resp_AppliedPolicies resp)) \<and>
    (\<exists>ps. Resolve r (req_TenantID req) (gs_Profile (req_Guardrails req)) (gs_Policies (req_Guardrails req)) (req_Stage req) = Inr ps \<and>
       elems (resp_AppliedPolicies resp) = map (Policy_CanonicalID \<circ> cp_Config) ps)"
proof -
  obtain ps where ps: "request_policies r req = Inr ps" "resp_AppliedPolicies resp = append_slice None (map (Policy_CanonicalID \<circ> cp_Config) ps)"
    by (rule Evaluate_steps[OF assms(1,2)])
  have "elems (resp_AppliedPolicies resp) = map (Policy_CanonicalID \<circ> cp_Config) ps" unfolding ps(2) append_slice_simps(3) by simp
  with policy_res.mandatory_id_resolved[OF assms(1) ps(1) assms(3-5)] ps(1) show ?thesis by simp
qed

text \<open>
  C12. Mandatory policies cannot be avoided: whatever profile and policies the caller selects, a
  response was computed under every mandatory policy of the platform and of the tenant that applies
  to the stage, and it lists exactly the resolved policies, in order.
\<close>

theorem mandatory_applied:
  assumes "wf_resolver r" "er_outcome (Evaluate (New_evaluator r) env req) = Response resp"
    and "i \<in> set (mandatory_ids r (req_TenantID req))" "map_of (rs_policies r) i = Some c" "cp_supports c (req_Stage req)"
  shows "i \<in> set (elems (resp_AppliedPolicies resp)) \<and>
    (\<exists>ps. Resolve r (req_TenantID req) (gs_Profile (req_Guardrails req)) (gs_Policies (req_Guardrails req)) (req_Stage req) = Inr ps \<and>
       elems (resp_AppliedPolicies resp) = map (Policy_CanonicalID \<circ> cp_Config) ps)"
  by (rule mandatory_in_response[OF assms])


text \<open>
  The reason given with an allow decision and no failure is that there were no findings, whether
  or not there were: a policy whose action is allow reports its findings and leaves the reason.
\<close>

theorem allow_reason:
  assumes "wf_resolver r" "er_outcome (Evaluate (New_evaluator r) env req) = Response resp"
    and "dec_Action (resp_Decision resp) = ActionAllow" "resp_DetectorFailures resp = []"
  shows "dec_Reason (resp_Decision resp) = ''no policy findings''"
  by (rule Evaluate_steps[OF assms(1,2)]) (use assms(3,4) in blast)

section \<open>Errors and traces\<close>

definition caller_ended :: "environment \<Rightarrow> eval_error \<Rightarrow> bool" where
  "caller_ended env e \<longleftrightarrow> (\<exists>ce n. e = ContextEnded ce \<and> ctx_Err (ev_ctx env) (ev_fired env n) = Some ce)"

lemma fail_detector_abort:
  "fail_detector env p did scope t e st = (Abort (StopError er), st') \<Longrightarrow> caller_ended env er"
  by (auto simp: fail_detector_def read_err_def caller_ended_def Let_def split: option.splits if_splits)

lemma detector_step_abort:
  assumes "detector_step env run p pctx req cd st = (Abort (StopError er), st')"
  shows "caller_ended env er"
proof -
  obtain res st3 where ex: "execute_detector env run (Policy_CanonicalID p) pctx cd req
      (snd (read_err env pctx (snd (read_err env (ev_ctx env) st)))) = (res, st3)" by (meson surj_pair)
  show ?thesis
  proof (cases "ctx_Err (ev_ctx env) (ev_fired env (es_tick st))")
    case (Some e)
    with assms show ?thesis by (auto simp: detector_step_def read_err_def caller_ended_def Let_def)
  next
    case None
    with assms ex fail_detector_abort show ?thesis
      by (auto simp: detector_step_def read_err_def Let_def split: option.splits sum.splits)
  qed
qed

lemma detector_loop_abort:
  "detector_loop env run p pctx req cds st = (Some (StopError er), st') \<Longrightarrow> caller_ended env er"
  by (induction cds arbitrary: st) (auto split: prod.splits flow.splits dest: detector_step_abort)

lemma policy_step_abort:
  "policy_step env run req c st = (Some (StopError er), st') \<Longrightarrow> caller_ended env er"
  by (auto simp: policy_step_def Let_def read_err_def split: option.splits prod.splits dest: detector_loop_abort)
    (simp add: caller_ended_def, blast)

lemma policy_loop_abort:
  "policy_loop env run req cs st = (Some (StopError er), st') \<Longrightarrow> caller_ended env er"
  by (induction cs arbitrary: st) (auto split: prod.splits option.splits dest: policy_step_abort)

lemma Evaluate_ends:
  assumes "wf_resolver r"
  shows "case er_outcome (Evaluate (New_evaluator r) env req) of
      Response resp \<Rightarrow> True
    | EvalFailed (Unresolved e) \<Rightarrow>
        Resolve r (req_TenantID req) (gs_Profile (req_Guardrails req)) (gs_Policies (req_Guardrails req)) (req_Stage req) = Inl e
    | EvalFailed (ContextEnded e) \<Rightarrow> \<exists>n. ctx_Err (ev_ctx env) (ev_fired env n) = Some e
    | Panicked \<Rightarrow> False"
  using assms
proof (cases rule: Evaluate_cases[of r env req])
  case (stopped ps e st)
  from policy_loop_abort[OF stopped(4)] stopped(1) show ?thesis by (auto simp: caller_ended_def)
next
  case (responded ps st)
  then show ?thesis by (elim finish_facts[of st env req "newID env 2" "ev_now env 0"]) simp
qed auto

lemma Evaluate_balanced:
  assumes "wf_resolver r"
  shows "balanced (er_events (Evaluate (New_evaluator r) env req))"
proof -
  have loop: "balanced (es_events st)" if "advanced ps (loop_start req) st" for ps st
    using that balanced_append[OF balanced_resolve_events] by (auto simp: advanced_def)
  have "balanced (er_events (Evaluate_body (New_evaluator r) env req))"
    using assms
  proof (cases rule: Evaluate_cases[of r env req])
    case (stopped ps e st)
    with loop show ?thesis by simp
  next
    case (responded ps st)
    show ?thesis
      by (rule finish_facts[OF responded(4), of env req "newID env 2" "ev_now env 0"])
        (use loop[OF responded(3)] responded(6) balanced_append in simp)
  qed (simp_all add: balanced_resolve_events)
  then show ?thesis unfolding Evaluate_def end_evaluation_def by (simp add: balanced_span)
qed

text \<open>
  C15. An evaluation never panics. It returns an error in two cases only: the policies do not resolve,
  and the error says why; or the caller's context has ended, and the error is that of the context.
\<close>

theorem Evaluate_errors:
  assumes "wf_resolver r"
  shows "case er_outcome (Evaluate (New_evaluator r) env req) of
      Response resp \<Rightarrow> True
    | EvalFailed (Unresolved e) \<Rightarrow>
        Resolve r (req_TenantID req) (gs_Profile (req_Guardrails req)) (gs_Policies (req_Guardrails req)) (req_Stage req) = Inl e
    | EvalFailed (ContextEnded e) \<Rightarrow> \<exists>n. ctx_Err (ev_ctx env) (ev_fired env n) = Some e
    | Panicked \<Rightarrow> False"
  by (rule Evaluate_ends[OF assms])

text \<open>
  C22. Tracing is balanced on every path: each span an evaluation starts is ended once, innermost
  first, whether it answers, fails to resolve or is abandoned at any point.
\<close>

theorem Evaluate_spans_balanced:
  assumes "wf_resolver r"
  shows "balanced (er_events (Evaluate (New_evaluator r) env req))"
  by (rule Evaluate_balanced[OF assms])

section \<open>Timeouts\<close>

lemma record_failure_new: "es_failures (record_failure f st) = es_failures st @ [f]"
  by (simp add: record_failure_def case_prod_beta)

lemma effective_scope: "effectiveDetectorTimeout rem configured = (scope, t) \<Longrightarrow> scope = FailureScopePolicy \<or> scope = FailureScopeDetector"
  by (auto simp: effectiveDetectorTimeout_def split: option.splits if_splits)

lemma detectorFailure_scope:
  "scope = FailureScopePolicy \<or> scope = FailureScopeDetector \<Longrightarrow>
     df_Scope (detectorFailure pid did scope mode t e) = FailureScopePolicy \<longleftrightarrow>
     df_Code (detectorFailure pid did scope mode t e) = FailurePolicyTimeout"
  by (auto simp: detectorFailure_def newFailure_def validExecutorFailureCode_def enum_defs split: option.splits)

lemma execute_detector_scope:
  assumes "execute_detector env run pid pctx cd req st = (Some (scope, t, res), st')"
  shows "scope = FailureScopePolicy \<or> scope = FailureScopeDetector"
proof -
  let ?rem = "map_option (\<lambda>d. d - ev_now env (es_tick st)) (cx_deadline pctx)"
  obtain sc tm where eff: "effectiveDetectorTimeout ?rem (det_Timeout (cd_Config cd)) = (sc, tm)" by (meson surj_pair)
  have "scope = sc"
    using assms by (auto simp: execute_detector_def Let_def read_clock_def emit_def eff case_prod_beta split: option.splits sum.splits)
  with effective_scope[OF eff] show ?thesis by simp
qed

text \<open>
  C18. A failure ends its policy exactly when it is of policy scope, which is when its code is
  \<open>POLICY_TIMEOUT\<close>: the remaining detectors of the policy do not run. After any other failure they do.
\<close>

theorem policy_timeout_stops:
  assumes "detector_step env run p pctx req cd st = (fl, st')" "es_failures st' = es_failures st @ [f]"
  shows "(df_Scope f = FailureScopePolicy \<longleftrightarrow> df_Code f = FailurePolicyTimeout) \<and>
    detector_loop env run p pctx req (cd # cds) st =
      (if df_Scope f = FailureScopePolicy then (None, st') else detector_loop env run p pctx req cds st')"
  using assms(1)
proof (cases rule: detector_step_cases)
  case (ended e)
  then show ?thesis using assms(2) by (simp add: read_err_snd)
next
  case timeout
  then have "f = policy_timeout p" using assms(2) by (simp add: record_failure_new read_err_snd)
  then show ?thesis using assms(1) timeout(1) by (simp add: policy_timeout_def newFailure_def)
next
  case (ran res st3)
  have core: "es_failures st3 = es_failures st"
    using execute_detector_facts(1)[OF ran(1)] by (simp add: same_core_def read_err_snd)
  obtain scope t e where fail: "res = Some (scope, t, Inl e)" "fail_detector env p (det_ID (cd_Config cd)) scope t e st3 = (fl, st')"
    using ran(2) assms(2) core by (auto simp: pass_detector_def emit_def Let_def split: option.splits sum.splits if_splits)
  from execute_detector_scope[OF ran(1)[unfolded fail(1)]]
  show ?thesis using fail(2) assms core detectorFailure_scope
    by (auto simp: fail_detector_def Let_def read_err_def emit_def record_failure_new split: option.splits if_splits)
qed

section \<open>Examples\<close>

definition rx_policy :: "action \<Rightarrow> policy" where
  "rx_policy act = demo_policy ''demo/regex'' [StagePreModel] act (cd_Config demo_regex_detector)"

definition rx_compiled :: "action \<Rightarrow> compiled_policy" where
  "rx_compiled act = \<lparr>cp_Config = rx_policy act, cp_Detectors = [demo_regex_detector]\<rparr>"

definition rx_resolver :: "action \<Rightarrow> resolver" where
  "rx_resolver act = \<lparr>rs_platform = [''demo/regex@1''], rs_tenants = [], rs_policies = [(''demo/regex@1'', rx_compiled act)], rs_profiles = []\<rparr>"

lemma rx_spec: "spec_Action (pol_Spec (rx_policy act)) = act" "spec_FailureMode (pol_Spec (rx_policy act)) = FailureClosed"
  "spec_Timeout (pol_Spec (rx_policy act)) = 25000000" "spec_Stages (pol_Spec (rx_policy act)) = [StagePreModel]"
  "Policy_CanonicalID (rx_policy act) = ''demo/regex@1''" "pol_Metadata (rx_policy act) = \<lparr>meta_ID = ''demo/regex'', meta_Version = 1\<rparr>"
  by (simp_all add: rx_policy_def demo_policy_def Policy_CanonicalID_def canonical_id_def show_eval)

lemma rx_detector: "det_ID (cd_Config demo_regex_detector) = ''demo''" "det_Timeout (cd_Config demo_regex_detector) = 10000000"
  by (simp_all add: demo_regex_detector_def demo_regex_policy_def demo_policy_def blank_detector_def)

lemma rx_wf: "act \<in> {ActionAllow, ActionBlock, ActionRedact, ActionMonitor} \<Longrightarrow> wf_resolver (rx_resolver act)"
  using demo_regex_wf
  by (simp add: rx_resolver_def rx_compiled_def wf_resolver_def wf_compiled_policy_def wf_compiled_detector_def rx_spec
      FailureMode_Valid_def Let_def) (simp add: demo_regex_policy_def demo_policy_def)

lemma demo_request_content [simp]: "req_Content demo_request = secret_message"
  by (simp add: demo_request_def)

lemma rx_resolve: "request_policies (rx_resolver act) demo_request = Inr [rx_compiled act]"
  by (simp add: Resolve_def mandatory_ids_def profile_ids_def rx_resolver_def demo_request_def cp_supports_def supportsStage_def
      rx_compiled_def rx_spec Let_def)

definition idle_env :: environment where
  "idle_env = \<lparr>ev_library = demo_library, ev_now = (\<lambda>_. 0), ev_fired = (\<lambda>_. 0), ev_ctx = Background, ev_random = Some ''''\<rparr>"

text \<open>The same, with every timer of the first second fired.\<close>

definition late_env :: environment where
  "late_env = idle_env\<lparr>ev_fired := (\<lambda>_. second)\<rparr>"

definition rx_finding :: finding where
  "rx_finding = new_finding ''demo'' ''c'' ''high'' (message_path 0) 0 2"

definition rx_item :: replacement where
  "rx_item = \<lparr>rp_path = message_path 0, rp_value = ''*'', rp_start = 0, rp_end = 2\<rparr>"

lemma rx_found: "FindAllStringIndex (lit ''ke'') ''key'' = [(0, 2)]"
  by code_simp

lemma rx_run: "evaluateDetector demo_library demo_regex_detector demo_request = Some ([rx_finding], [rx_item])"
  by (simp add: evaluateDetector_def demo_regex_detector_def demo_regex_policy_def demo_policy_def blank_detector_def Let_def
    secret_message_def visitText_def text_hits_def rx_found text_output_def rx_finding_def rx_item_def unzip_output_def)

lemmas run_eval = Evaluate_def end_evaluation_def Evaluate_body_def New_evaluator_def rx_resolve Let_def start_state_def
  policy_step_def read_err_def read_clock_def emit_def detector_step_def execute_detector_def builtin_Evaluate_def
  WithTimeout_def ctx_Err_def Background_def effectiveDetectorTimeout_def fail_detector_def pass_detector_def record_failure_def
  policy_timeout_def newFailure_def applyFailureDecision_def failure_action_def actionPriority_def failure_reason_def
  rx_spec rx_compiled_def rx_detector finish_def build_response_def

lemma late_run:
  "\<exists>resp. er_outcome (Evaluate (New_evaluator (rx_resolver ActionRedact)) late_env demo_request) = Response resp \<and>
     resp_DetectorFailures resp = [policy_timeout (rx_policy ActionRedact)]"
  by (simp add: run_eval late_env_def idle_env_def demo_library_def)

lemma rx_apply: "\<exists>c. applyReplacements (lib_unicode demo_library) secret_message [rx_item] = Some (c, c)"
  by (simp add: demo_library_def secret_message_def rx_item_def applyReplacements_def Let_def apply_at_def selected_at_def
      items_at_def message_path_def show_eval splice_def apply_data_def)

lemma redact_run:
  "\<exists>resp. er_outcome (Evaluate (New_evaluator (rx_resolver ActionRedact)) idle_env demo_request) = Response resp \<and>
     dec_Action (resp_Decision resp) = ActionRedact \<and> resp_Findings resp = [rx_finding]"
proof -
  obtain c where "applyReplacements (lib_unicode demo_library) secret_message [rx_item] = Some (c, c)" using rx_apply by blast
  then show ?thesis by (simp add: run_eval idle_env_def rx_run)
qed

lemma allow_run:
  "\<exists>resp. er_outcome (Evaluate (New_evaluator (rx_resolver ActionAllow)) idle_env demo_request) = Response resp \<and>
     dec_Action (resp_Decision resp) = ActionAllow \<and> resp_Findings resp = [rx_finding] \<and> resp_DetectorFailures resp = []"
  using rx_run by (simp add: run_eval idle_env_def)

theorem Evaluate_refines_witness:
  "\<exists>resp ps steps. er_outcome (Evaluate (New_evaluator (rx_resolver ActionRedact)) idle_env demo_request) = Response resp \<and>
     list_all (legal ps) steps \<and> response_abstract resp = foldl absorb abstract_start steps \<and> resp_Findings resp = [rx_finding]"
  using redact_run Evaluate_refines[OF rx_wf[of ActionRedact], of idle_env demo_request] by fast

theorem decision_justified_witness:
  "\<exists>resp. er_outcome (Evaluate (New_evaluator (rx_resolver ActionRedact)) idle_env demo_request) = Response resp \<and>
     ((\<exists>f \<in> set (resp_DetectorFailures resp). verdict_of (failure_action (df_FailureMode f)) = Redact) \<or>
      (\<exists>f \<in> set (resp_Findings resp). f = rx_finding))"
proof -
  obtain resp where r: "er_outcome (Evaluate (New_evaluator (rx_resolver ActionRedact)) idle_env demo_request) = Response resp"
    "dec_Action (resp_Decision resp) = ActionRedact" "resp_Findings resp = [rx_finding]" using redact_run by blast
  have "wf_resolver (rx_resolver ActionRedact)" by (rule rx_wf) simp
  from decision_justified[OF this r(1)] r show ?thesis by auto
qed

theorem closed_failure_blocks_witness:
  "\<exists>resp. er_outcome (Evaluate (New_evaluator (rx_resolver ActionRedact)) late_env demo_request) = Response resp \<and>
     dec_Action (resp_Decision resp) = ActionBlock"
proof -
  obtain resp where r: "er_outcome (Evaluate (New_evaluator (rx_resolver ActionRedact)) late_env demo_request) = Response resp"
    "resp_DetectorFailures resp = [policy_timeout (rx_policy ActionRedact)]" using late_run by blast
  have wf: "wf_resolver (rx_resolver ActionRedact)" by (rule rx_wf) simp
  have "policy_timeout (rx_policy ActionRedact) \<in> set (resp_DetectorFailures resp)" by (simp add: r(2))
  from closed_failure_blocks[OF wf r(1) this] r(1) show ?thesis
    by (simp add: policy_timeout_def newFailure_def rx_spec)
qed

theorem mandatory_applied_witness:
  "\<exists>resp. er_outcome (Evaluate (New_evaluator (rx_resolver ActionRedact)) idle_env demo_request) = Response resp \<and>
     ''demo/regex@1'' \<in> set (elems (resp_AppliedPolicies resp))"
proof -
  obtain resp where r: "er_outcome (Evaluate (New_evaluator (rx_resolver ActionRedact)) idle_env demo_request) = Response resp"
    using redact_run by blast
  have wf: "wf_resolver (rx_resolver ActionRedact)" by (rule rx_wf) simp
  have "''demo/regex@1'' \<in> set (elems (resp_AppliedPolicies resp))"
    by (rule conjunct1[OF mandatory_applied[OF wf r(1), of _ "rx_compiled ActionRedact"]])
      (simp_all add: mandatory_ids_def rx_resolver_def rx_compiled_def cp_supports_def supportsStage_def rx_spec demo_request_def Let_def)
  with r show ?thesis by blast
qed


theorem allow_reason_witness:
  "\<exists>resp. er_outcome (Evaluate (New_evaluator (rx_resolver ActionAllow)) idle_env demo_request) = Response resp \<and>
     resp_Findings resp = [rx_finding] \<and> dec_Reason (resp_Decision resp) = ''no policy findings''"
proof -
  have "wf_resolver (rx_resolver ActionAllow)" by (rule rx_wf) simp
  then show ?thesis using allow_run allow_reason by blast
qed

theorem Evaluate_errors_witness:
  "er_outcome (Evaluate (New_evaluator (rx_resolver ActionRedact)) late_env demo_request) \<noteq> Panicked"
proof -
  have "wf_resolver (rx_resolver ActionRedact)" by (rule rx_wf) simp
  from Evaluate_errors[OF this, of late_env demo_request] show ?thesis by auto
qed

theorem Evaluate_spans_balanced_witness:
  "balanced (er_events (Evaluate (New_evaluator (rx_resolver ActionRedact)) late_env demo_request))"
  by (rule Evaluate_spans_balanced) (rule rx_wf, simp)

theorem policy_timeout_stops_witness:
  "fst (detector_loop late_env builtin_Evaluate (rx_policy ActionRedact) (WithTimeout Background 0 25000000) demo_request
     [demo_regex_detector, demo_regex_detector] (start_state 0)) = None"
proof -
  let ?step = "detector_step late_env builtin_Evaluate (rx_policy ActionRedact) (WithTimeout Background 0 25000000) demo_request demo_regex_detector (start_state 0)"
  obtain fl st' where step: "?step = (fl, st')" by (meson surj_pair)
  have "es_failures (snd ?step) = es_failures (start_state 0) @ [policy_timeout (rx_policy ActionRedact)]"
    by (simp add: run_eval late_env_def idle_env_def)
  then have "es_failures st' = es_failures (start_state 0) @ [policy_timeout (rx_policy ActionRedact)]" by (simp only: step snd_conv)
  from policy_timeout_stops[OF step this, of "[demo_regex_detector]"] show ?thesis
    by (simp add: policy_timeout_def newFailure_def)
qed

end
