(* ===== verification/GR_Readings.thy ===== *)
theory GR_Readings
  imports GR_Evaluation
begin

text \<open>
  More of what an evaluation guarantees: the names under which it reports timings and the scopes of
  its failures come from the resolved policies, its identifier from the random source or the clock;
  and how far it follows the caller's context. The evaluation takes numbered readings of the clock
  and of the context; each policy takes at least four, the first of them a test of the context.
\<close>

section \<open>Names\<close>

definition detector_ids :: "compiled_policy list \<Rightarrow> string set" where
  "detector_ids ps = (\<Union>c \<in> set ps. (det_ID \<circ> cd_Config) ` set (cp_Detectors c))"

definition policy_ids :: "compiled_policy list \<Rightarrow> string set" where
  "policy_ids ps = (Policy_CanonicalID \<circ> cp_Config) ` set ps"

definition valid_scope :: "detector_failure \<Rightarrow> bool" where
  "valid_scope f \<longleftrightarrow> df_Scope f = FailureScopePolicy \<or> df_Scope f = FailureScopeDetector"

definition named :: "compiled_policy list \<Rightarrow> eval_state \<Rightarrow> bool" where
  "named ps st \<longleftrightarrow> (\<forall>f \<in> set (es_failures st). valid_scope f) \<and> fst ` set (es_detector_ms st) \<subseteq> detector_ids ps \<and>
     fst ` set (es_policy_ms st) \<subseteq> policy_ids ps"

lemma keys_add_ms: "fst ` set (add_ms k v m) = insert k (fst ` set m)"
  unfolding add_ms_def by (induction m) auto

lemma named_tick [simp]: "named ps (st\<lparr>es_tick := n\<rparr>) = named ps st" "named ps (emit evs st) = named ps st"
  "named ps (snd (read_err env c st)) = named ps st"
  by (simp_all add: named_def emit_def read_err_def)

lemma named_failure: "named ps st \<Longrightarrow> valid_scope f \<Longrightarrow> named ps (record_failure f st)"
  by (auto simp: named_def record_failure_def case_prod_beta)

lemma valid_scope_detectorFailure:
  "scope = FailureScopePolicy \<or> scope = FailureScopeDetector \<Longrightarrow> valid_scope (detectorFailure pid did scope mode t e)"
  by (auto simp: valid_scope_def detectorFailure_def newFailure_def split: option.splits)

lemma execute_detector_timings:
  assumes "execute_detector env run pid pctx cd req st = (res, st')"
  shows "es_policy_ms st' = es_policy_ms st"
    "es_detector_ms st' = es_detector_ms st \<or> (\<exists>ms. es_detector_ms st' = add_ms (det_ID (cd_Config cd)) ms (es_detector_ms st))"
  using assms by (auto simp: execute_detector_def Let_def read_clock_def read_err_def emit_def case_prod_beta
      split: option.splits sum.splits)

lemma execute_detector_named:
  assumes "execute_detector env run pid pctx cd req st = (res, st')" "named ps st" "det_ID (cd_Config cd) \<in> detector_ids ps"
  shows "named ps st'"
proof -
  have "es_failures st' = es_failures st" using execute_detector_facts(1)[OF assms(1)] by (simp add: same_core_def)
  with execute_detector_timings[OF assms(1)] assms(2,3) show ?thesis
    by (elim disjE exE) (simp_all add: named_def keys_add_ms)
qed

lemma pass_detector_named: "named ps st \<Longrightarrow> named ps (pass_detector p out st)"
  by (simp add: pass_detector_def named_def emit_def Let_def)

lemma detector_step_named:
  assumes "detector_step env run p pctx req cd st = (fl, st')" "named ps st" "det_ID (cd_Config cd) \<in> detector_ids ps"
  shows "named ps st'"
  using assms(1)
proof (cases rule: detector_step_cases)
  case timeout
  have "valid_scope (policy_timeout p)" by (simp add: valid_scope_def policy_timeout_def newFailure_def)
  with timeout assms(2) show ?thesis by (simp add: named_failure)
next
  case (ran res st3)
  have st3: "named ps st3" by (rule execute_detector_named[OF ran(1) _ assms(3)]) (simp add: assms(2))
  show ?thesis
  proof (cases res)
    case (Some out)
    obtain scope t r where out: "out = (scope, t, r)" by (metis prod_cases3)
    from execute_detector_scope[OF ran(1)[unfolded Some out]] have v: "valid_scope (detectorFailure pid did scope mode t' e)" for pid did mode t' e
      by (rule valid_scope_detectorFailure)
    show ?thesis
    proof (cases r)
      case (Inl e)
      then have "fail_detector env p (det_ID (cd_Config cd)) scope t e st3 = (fl, st')" using ran(2) Some out by simp
      then show ?thesis using st3 v
        by (auto simp: fail_detector_def Let_def case_prod_beta named_failure split: option.splits)
    next
      case (Inr o')
      then show ?thesis using ran(2) Some out st3 pass_detector_named by simp
    qed
  qed (use ran(2) st3 in simp)
qed (use assms(2) in simp)

lemma detector_loop_named:
  "detector_loop env run p pctx req cds st = (stop, st') \<Longrightarrow> named ps st \<Longrightarrow> (det_ID \<circ> cd_Config) ` set cds \<subseteq> detector_ids ps \<Longrightarrow> named ps st'"
proof (induction cds arbitrary: st)
  case (Cons cd cds)
  obtain fl st1 where step: "detector_step env run p pctx req cd st = (fl, st1)" by (meson surj_pair)
  from detector_step_named[OF this Cons.prems(2)] Cons.prems(3) have "named ps st1" by simp
  with Cons step show ?case by (cases fl) auto
qed simp

text \<open>What a policy that ran to its end did.\<close>

lemma policy_step_None:
  assumes "policy_step env run req c st = (None, st')"
  obtains pctx st3 ms where "ctx_Err (ev_ctx env) (ev_fired env (es_tick st)) = None"
    "detector_loop env run (cp_Config c) pctx req (cp_Detectors c) (enter_policy env (cp_Config c) st) = (None, st3)"
    "st' = st3\<lparr>es_tick := Suc (es_tick st3), es_policy_ms := add_ms (Policy_CanonicalID (cp_Config c)) ms (es_policy_ms st3)\<rparr>"
proof -
  have none: "ctx_Err (ev_ctx env) (ev_fired env (es_tick st)) = None"
    using assms by (auto simp: policy_step_def Let_def read_err_def split: option.splits)
  let ?pctx = "WithTimeout (ev_ctx env) (ev_now env (Suc (Suc (es_tick st)))) (spec_Timeout (pol_Spec (cp_Config c)))"
  obtain stop st3 where loop: "detector_loop env run (cp_Config c) ?pctx req (cp_Detectors c) (enter_policy env (cp_Config c) st) = (stop, st3)"
    by (meson surj_pair)
  have enter: "st\<lparr>es_applied := append_slice (es_applied st) [Policy_CanonicalID (cp_Config c)], es_tick := Suc (Suc (Suc (es_tick st)))\<rparr> =
      enter_policy env (cp_Config c) st" by (simp add: enter_policy_def numeral_3_eq_3)
  show thesis
    using assms none loop enter
    by (cases stop) (auto simp: policy_step_def Let_def read_err_def read_clock_def intro: that[OF none])
qed

lemma policy_loop_named:
  "policy_loop env run req cs st = (None, st') \<Longrightarrow> named ps st \<Longrightarrow> set cs \<subseteq> set ps \<Longrightarrow> named ps st'"
proof (induction cs arbitrary: st)
  case (Cons c cs)
  obtain s1 st1 where step: "policy_step env run req c st = (s1, st1)" by (meson surj_pair)
  with Cons.prems(1) have s1: "s1 = None" "policy_loop env run req cs st1 = (None, st')" by (auto split: option.splits)
  obtain pctx st3 ms where c: "detector_loop env run (cp_Config c) pctx req (cp_Detectors c) (enter_policy env (cp_Config c) st) = (None, st3)"
    "st1 = st3\<lparr>es_tick := Suc (es_tick st3), es_policy_ms := add_ms (Policy_CanonicalID (cp_Config c)) ms (es_policy_ms st3)\<rparr>"
    by (rule policy_step_None[OF step[unfolded s1(1)]])
  have "named ps st3"
    by (rule detector_loop_named[OF c(1)]) (use Cons.prems in \<open>auto simp: named_def enter_policy_def detector_ids_def\<close>)
  then have "named ps st1" using Cons.prems(3) by (auto simp: c(2) named_def keys_add_ms policy_ids_def)
  with Cons.IH s1(2) Cons.prems(3) show ?case by simp
qed simp

lemma finish_names:
  "er_outcome (finish env req ident started st) = Response resp \<Longrightarrow> resp_EvaluationID resp = ident \<and>
     resp_DetectorFailures resp = es_failures st \<and> tm_Detectors (resp_Timing resp) = es_detector_ms st \<and>
     tm_Policies (resp_Timing resp) = es_policy_ms st"
  by (auto simp: finish_def Let_def build_response_def emit_def read_clock_def split: if_splits option.splits)

lemma response_names:
  assumes "wf_resolver r" "er_outcome (Evaluate (New_evaluator r) env req) = Response resp" "request_policies r req = Inr ps"
  shows "resp_EvaluationID resp = newID env 2" "\<And>f. f \<in> set (resp_DetectorFailures resp) \<Longrightarrow> valid_scope f"
    "fst ` set (tm_Detectors (resp_Timing resp)) \<subseteq> detector_ids ps" "fst ` set (tm_Policies (resp_Timing resp)) \<subseteq> policy_ids ps"
proof -
  have "resp_EvaluationID resp = newID env 2 \<and> (\<forall>f \<in> set (resp_DetectorFailures resp). valid_scope f) \<and>
    fst ` set (tm_Detectors (resp_Timing resp)) \<subseteq> detector_ids ps \<and> fst ` set (tm_Policies (resp_Timing resp)) \<subseteq> policy_ids ps"
    using assms(1)
  proof (cases rule: Evaluate_cases[of r env req])
    case (responded qs st)
    have fin: "er_outcome (finish env req (newID env 2) (ev_now env 0) st) = Response resp" using assms(2) responded(6) by simp
    have "qs = ps" using responded(1) assms(3) by simp
    moreover have "named qs (loop_start req)" by (simp add: named_def loop_start_def emit_def start_state_def)
    ultimately have "named ps st" using policy_loop_named[OF responded(2)] by simp
    with finish_names[OF fin] show ?thesis by (simp add: named_def)
  qed (use assms(2) in simp_all)
  then show "resp_EvaluationID resp = newID env 2" "\<And>f. f \<in> set (resp_DetectorFailures resp) \<Longrightarrow> valid_scope f"
    "fst ` set (tm_Detectors (resp_Timing resp)) \<subseteq> detector_ids ps" "fst ` set (tm_Policies (resp_Timing resp)) \<subseteq> policy_ids ps" by blast+
qed

section \<open>The caller's context\<close>

lemma builtin_advances: "builtin_Evaluate env c n cd req = (out, n') \<Longrightarrow> n \<le> n'"
  by (auto simp: builtin_Evaluate_def split: option.splits)

lemma execute_detector_tick:
  assumes "execute_detector env builtin_Evaluate pid pctx cd req st = (res, st')"
  shows "es_tick st \<le> es_tick st'"
proof -
  have run: "k \<le> snd (builtin_Evaluate env c k cd req)" for c k by (metis builtin_advances prod.collapse)
  have le: "es_tick st \<le> snd (builtin_Evaluate env c (Suc (Suc (Suc (es_tick st)))) cd req)" for c
    using run[of "Suc (Suc (Suc (es_tick st)))" c] by simp
  show ?thesis
    using assms by (auto simp: execute_detector_def Let_def read_clock_def read_err_def emit_def case_prod_beta le le_SucI
        split: option.splits sum.splits)
qed

lemma detector_step_tick:
  assumes "detector_step env builtin_Evaluate p pctx req cd st = (fl, st')"
  shows "es_tick st \<le> es_tick st'" "fl \<noteq> Abort (StopError e) \<Longrightarrow> ctx_Err (ev_ctx env) (ev_fired env (es_tick st)) = None \<or> (\<exists>e'. fl = Abort e')"
proof -
  show "es_tick st \<le> es_tick st'"
    using assms
  proof (cases rule: detector_step_cases)
    case (ran res st3)
    have "es_tick st \<le> es_tick st3" using execute_detector_tick[OF ran(1)] by (simp add: read_err_snd)
    with ran(2) show ?thesis
      by (auto simp: fail_detector_def pass_detector_def record_failure_def emit_def read_err_def Let_def case_prod_beta
          split: option.splits sum.splits if_splits)
  qed (simp_all add: read_err_snd record_failure_def case_prod_beta)
  show "ctx_Err (ev_ctx env) (ev_fired env (es_tick st)) = None \<or> (\<exists>e'. fl = Abort e')"
    using assms by (auto simp: detector_step_def Let_def read_err_def split: option.splits)
qed

lemma detector_loop_tick:
  "detector_loop env builtin_Evaluate p pctx req cds st = (stop, st') \<Longrightarrow> es_tick st \<le> es_tick st'"
proof (induction cds arbitrary: st)
  case (Cons cd cds)
  obtain fl st1 where step: "detector_step env builtin_Evaluate p pctx req cd st = (fl, st1)" by (meson surj_pair)
  with Cons detector_step_tick(1)[OF step] show ?case by (cases fl) (auto intro: order_trans)
qed simp

text \<open>A loop that ends without an error tested the context before its first detector.\<close>

lemma detector_loop_tested:
  assumes "detector_loop env builtin_Evaluate p pctx req cds st = (None, st')" "cds \<noteq> []"
  shows "ctx_Err (ev_ctx env) (ev_fired env (es_tick st)) = None"
proof -
  obtain cd ds where cds: "cds = cd # ds" using assms(2) by (cases cds) auto
  obtain fl st1 where step: "detector_step env builtin_Evaluate p pctx req cd st = (fl, st1)" by (meson surj_pair)
  with assms(1) cds have "\<nexists>e. fl = Abort e" by auto
  with detector_step_tick(2)[OF step] show ?thesis by blast
qed

lemma policy_loop_tested:
  "policy_loop env builtin_Evaluate req (qs @ [c]) st = (None, st') \<Longrightarrow>
     \<exists>n \<ge> es_tick st + 4 * length qs. ctx_Err (ev_ctx env) (ev_fired env n) = None \<and>
       (cp_Detectors c \<noteq> [] \<longrightarrow> ctx_Err (ev_ctx env) (ev_fired env (n + 3)) = None)"
proof (induction qs arbitrary: st)
  case Nil
  then have "policy_step env builtin_Evaluate req c st = (None, st')" by (auto split: prod.splits option.splits)
  then show ?case
  proof (rule policy_step_None)
    fix pctx st3 ms
    assume "ctx_Err (ev_ctx env) (ev_fired env (es_tick st)) = None"
      "detector_loop env builtin_Evaluate (cp_Config c) pctx req (cp_Detectors c) (enter_policy env (cp_Config c) st) = (None, st3)"
    with detector_loop_tested[OF this(2)] show ?thesis by (intro exI[of _ "es_tick st"]) (simp add: enter_policy_def)
  qed
next
  case (Cons q qs)
  obtain s1 st1 where step: "policy_step env builtin_Evaluate req q st = (s1, st1)" by (meson surj_pair)
  with Cons.prems have s1: "s1 = None" "policy_loop env builtin_Evaluate req (qs @ [c]) st1 = (None, st')" by (auto split: option.splits)
  have "es_tick st + 4 \<le> es_tick st1"
  proof (rule policy_step_None[OF step[unfolded s1(1)]])
    fix pctx st3 ms
    assume "detector_loop env builtin_Evaluate (cp_Config q) pctx req (cp_Detectors q) (enter_policy env (cp_Config q) st) = (None, st3)"
      "st1 = st3\<lparr>es_tick := Suc (es_tick st3), es_policy_ms := add_ms (Policy_CanonicalID (cp_Config q)) ms (es_policy_ms st3)\<rparr>"
    with detector_loop_tick[OF this(1)] show ?thesis by (simp add: enter_policy_def)
  qed
  moreover obtain n where "es_tick st1 + 4 * length qs \<le> n" "ctx_Err (ev_ctx env) (ev_fired env n) = None"
    "cp_Detectors c \<noteq> [] \<longrightarrow> ctx_Err (ev_ctx env) (ev_fired env (n + 3)) = None" using Cons.IH[OF s1(2)] by blast
  ultimately show ?case by (intro exI[of _ n]) simp
qed

text \<open>The context at a numbered reading.\<close>

definition ended_by :: "environment \<Rightarrow> nat \<Rightarrow> bool" where
  "ended_by env n \<longleftrightarrow> ctx_Err (ev_ctx env) (ev_fired env n) \<noteq> None"

lemma ended_by_mono:
  assumes "mono (ev_fired env)" "ended_by env m" "m \<le> n"
  shows "ended_by env n"
proof -
  from assms(2) obtain e where "ctx_Err (ev_ctx env) (ev_fired env m) = Some e" by (auto simp: ended_by_def)
  from ctx_Err_sticky[OF this monoD[OF assms(1,3)]] show ?thesis by (simp add: ended_by_def)
qed

lemma Evaluate_tested:
  assumes "wf_resolver r" and mono: "mono (ev_fired env)"
  shows "ended_by env 1 \<Longrightarrow> \<exists>e. er_outcome (Evaluate (New_evaluator r) env req) = EvalFailed (ContextEnded e)"
    "\<not> ended_by env 1 \<Longrightarrow> (\<exists>e. er_outcome (Evaluate (New_evaluator r) env req) = EvalFailed (Unresolved e)) \<longleftrightarrow> (\<exists>e. request_policies r req = Inl e)"
    "er_outcome (Evaluate (New_evaluator r) env req) = Response resp \<Longrightarrow> request_policies r req = Inr (qs @ [c]) \<Longrightarrow>
       \<not> ended_by env (3 + 4 * length qs) \<and> (cp_Detectors c \<noteq> [] \<longrightarrow> \<not> ended_by env (6 + 4 * length qs))"
proof -
  show "\<exists>e. er_outcome (Evaluate (New_evaluator r) env req) = EvalFailed (ContextEnded e)" if "ended_by env 1"
    using that by (auto simp: ended_by_def Evaluate_body_def)
  show "(\<exists>e. er_outcome (Evaluate (New_evaluator r) env req) = EvalFailed (Unresolved e)) \<longleftrightarrow> (\<exists>e. request_policies r req = Inl e)"
    if "\<not> ended_by env 1"
    using assms(1)
  proof (cases rule: Evaluate_cases[of r env req])
    case (stopped ps e st)
    from policy_loop_abort[OF stopped(4)] stopped show ?thesis by (auto simp: caller_ended_def)
  next
    case (responded ps st)
    then show ?thesis by (elim finish_facts[of st env req "newID env 2" "ev_now env 0"]) simp
  qed (use that in \<open>auto simp: ended_by_def\<close>)
  assume resp: "er_outcome (Evaluate (New_evaluator r) env req) = Response resp" "request_policies r req = Inr (qs @ [c])"
  show "\<not> ended_by env (3 + 4 * length qs) \<and> (cp_Detectors c \<noteq> [] \<longrightarrow> \<not> ended_by env (6 + 4 * length qs))"
    using assms(1)
  proof (cases rule: Evaluate_cases[of r env req])
    case (responded ps st)
    then have "policy_loop env builtin_Evaluate req (qs @ [c]) (loop_start req) = (None, st)" using resp(2) by simp
    from policy_loop_tested[OF this] obtain n where n: "3 + 4 * length qs \<le> n" "\<not> ended_by env n"
      "cp_Detectors c \<noteq> [] \<longrightarrow> \<not> ended_by env (n + 3)" by (auto simp: ended_by_def loop_start_def emit_def start_state_def)
    with ended_by_mono[OF mono _ n(1)] ended_by_mono[OF mono, of "6 + 4 * length qs" "n + 3"] show ?thesis by auto
  qed (use resp(1) in simp_all)
qed

end
