(* ===== verification/GR_Auth.thy ===== *)
theory GR_Auth
  imports GR_Config GR_Strings
begin

text \<open>
  \<open>internal/auth/auth.go\<close>: building the static bearer controller from the configuration and the
  environment, authenticating an \<open>Authorization\<close> header, and the three authorization checks, with
  the disabled controller beside it. \<open>sha256.Sum256\<close> is an argument; the lemmas that need it assume
  nothing about it beyond what the code tests (two configured tokens have different digests).

  The locale \<open>access_controller\<close> states what the HTTP layer relies on: for a principal a
  controller has authenticated, each check answers from the principal's own scopes.
\<close>

section \<open>Principals and errors\<close>

datatype access_error = ErrUnauthenticated | ErrForbidden

record principal =
  pr_ID :: string
  pr_tenants :: "string set"
  pr_allTenants :: bool
  pr_allowTenantless :: bool
  pr_policyReader :: bool
  pr_metricsReader :: bool

datatype auth_setup_error =
    AuthDisabled
  | NoPrincipals
  | NoEnvironmentLookup
  | PrincipalIDInvalid
  | DuplicatePrincipal string
  | TokenEnvInvalid string
  | TokenNotSet string string
  | TokenTooShort string
  | TokenNotTrimmed string
  | SharedToken
  | TenantInvalid string

type_synonym token_table = "(string \<times> principal) list"

datatype controller = StaticBearer token_table | Disabled

section \<open>\<open>NewStaticBearer\<close>\<close>

definition trimmed :: "string \<Rightarrow> bool" where
  "trimmed s \<longleftrightarrow> s \<noteq> '''' \<and> trim_space s = s"

fun add_tenants :: "string \<Rightarrow> principal \<Rightarrow> string list \<Rightarrow> (auth_setup_error, principal) result" where
  "add_tenants i p [] = Inr p"
| "add_tenants i p (t # ts) =
     (if \<not> trimmed t then Inl (TenantInvalid i)
      else if t = ''*'' then add_tenants i (p\<lparr>pr_allTenants := True\<rparr>) ts
      else add_tenants i (p\<lparr>pr_tenants := insert t (pr_tenants p)\<rparr>) ts)"

definition read_token :: "(string \<Rightarrow> string option) \<Rightarrow> auth_principal \<Rightarrow> (auth_setup_error, string) result" where
  "read_token env c =
     (if \<not> trimmed (ap_TokenEnv c) then Inl (TokenEnvInvalid (ap_ID c))
      else case env (ap_TokenEnv c) of
        None \<Rightarrow> Inl (TokenNotSet (ap_ID c) (ap_TokenEnv c))
      | Some token \<Rightarrow>
          if token = '''' then Inl (TokenNotSet (ap_ID c) (ap_TokenEnv c))
          else if length token < 32 then Inl (TokenTooShort (ap_ID c))
          else if trim_space token \<noteq> token then Inl (TokenNotTrimmed (ap_ID c))
          else Inr token)"

fun add_principals :: "(string \<Rightarrow> string) \<Rightarrow> (string \<Rightarrow> string option) \<Rightarrow> token_table \<Rightarrow> string set \<Rightarrow>
    auth_principal list \<Rightarrow> (auth_setup_error, token_table) result" where
  "add_principals sha env table ids [] = Inr table"
| "add_principals sha env table ids (c # cs) =
     (if \<not> trimmed (ap_ID c) then Inl PrincipalIDInvalid
      else if ap_ID c \<in> ids then Inl (DuplicatePrincipal (ap_ID c))
      else res_bind (read_token env c) (\<lambda>token.
        if map_of table (sha token) \<noteq> None then Inl SharedToken
        else res_bind (add_tenants (ap_ID c)
            \<lparr>pr_ID = ap_ID c, pr_tenants = {}, pr_allTenants = False,
             pr_allowTenantless = ap_AllowTenantless c, pr_policyReader = ap_PolicyReader c,
             pr_metricsReader = ap_MetricsReader c\<rparr> (ap_Tenants c))
          (\<lambda>p. add_principals sha env (table @ [(sha token, p)]) (insert (ap_ID c) ids) cs)))"

definition NewStaticBearer :: "(string \<Rightarrow> string) \<Rightarrow> auth_config \<Rightarrow> (string \<Rightarrow> string option) option \<Rightarrow>
    (auth_setup_error, controller) result" where
  "NewStaticBearer sha cfg lookupEnv =
     (if \<not> ac_Enabled cfg then Inl AuthDisabled
      else if ac_Principals cfg = [] then Inl NoPrincipals
      else case lookupEnv of None \<Rightarrow> Inl NoEnvironmentLookup
      | Some env \<Rightarrow> res_bind (add_principals sha env [] {} (ac_Principals cfg)) (\<lambda>t. Inr (StaticBearer t)))"

section \<open>Authentication and authorization\<close>

definition parseBearer :: "unicode_tables \<Rightarrow> string \<Rightarrow> string option" where
  "parseBearer u authorization = (case Fields authorization of
     [scheme, token] \<Rightarrow> if \<not> equal_fold u scheme ''Bearer'' \<or> token = '''' then None else Some token
   | _ \<Rightarrow> None)"

definition disabled_principal :: principal where
  "disabled_principal = \<lparr>pr_ID = ''authentication-disabled'', pr_tenants = {}, pr_allTenants = True,
     pr_allowTenantless = True, pr_policyReader = True, pr_metricsReader = True\<rparr>"

fun Authenticate :: "unicode_tables \<Rightarrow> (string \<Rightarrow> string) \<Rightarrow> controller \<Rightarrow> string \<Rightarrow> (access_error, principal) result" where
  "Authenticate u sha (StaticBearer table) authorization =
     (case parseBearer u authorization of None \<Rightarrow> Inl ErrUnauthenticated
      | Some token \<Rightarrow> (case map_of table (sha token) of
          None \<Rightarrow> Inl ErrUnauthenticated | Some p \<Rightarrow> Inr p))"
| "Authenticate u sha Disabled authorization = Inr disabled_principal"

fun AuthorizeTenant :: "controller \<Rightarrow> principal \<Rightarrow> string \<Rightarrow> (access_error, unit) result" where
  "AuthorizeTenant (StaticBearer _) p tenant =
     (if tenant = '''' then (if pr_allowTenantless p then Inr () else Inl ErrForbidden)
      else if pr_allTenants p then Inr ()
      else if tenant \<notin> pr_tenants p then Inl ErrForbidden
      else Inr ())"
| "AuthorizeTenant Disabled p tenant = Inr ()"

fun AuthorizePolicyList :: "controller \<Rightarrow> principal \<Rightarrow> (access_error, unit) result" where
  "AuthorizePolicyList (StaticBearer _) p = (if \<not> pr_policyReader p then Inl ErrForbidden else Inr ())"
| "AuthorizePolicyList Disabled p = Inr ()"

fun AuthorizeMetrics :: "controller \<Rightarrow> principal \<Rightarrow> (access_error, unit) result" where
  "AuthorizeMetrics (StaticBearer _) p = (if \<not> pr_metricsReader p then Inl ErrForbidden else Inr ())"
| "AuthorizeMetrics Disabled p = Inr ()"

section \<open>The access controller as an interface\<close>

definition tenant_allowed :: "principal \<Rightarrow> string \<Rightarrow> bool" where
  "tenant_allowed p tenant \<longleftrightarrow>
     (if tenant = '''' then pr_allowTenantless p else pr_allTenants p \<or> tenant \<in> pr_tenants p)"

locale access_controller =
  fixes authenticate :: "'c \<Rightarrow> string \<Rightarrow> (access_error, principal) result"
    and authorize_tenant :: "'c \<Rightarrow> principal \<Rightarrow> string \<Rightarrow> (access_error, unit) result"
    and authorize_policy_list :: "'c \<Rightarrow> principal \<Rightarrow> (access_error, unit) result"
    and authorize_metrics :: "'c \<Rightarrow> principal \<Rightarrow> (access_error, unit) result"
  assumes unauthenticated: "authenticate c h = Inl e \<Longrightarrow> e = ErrUnauthenticated"
    and tenant_scope: "authenticate c h = Inr p \<Longrightarrow>
      authorize_tenant c p t = (if tenant_allowed p t then Inr () else Inl ErrForbidden)"
    and policy_scope: "authenticate c h = Inr p \<Longrightarrow>
      authorize_policy_list c p = (if pr_policyReader p then Inr () else Inl ErrForbidden)"
    and metrics_scope: "authenticate c h = Inr p \<Longrightarrow>
      authorize_metrics c p = (if pr_metricsReader p then Inr () else Inl ErrForbidden)"
begin

text \<open>Whether a request of a header may act for a tenant, in one step.\<close>

lemma tenant_access:
  "(\<exists>p. authenticate c h = Inr p \<and> authorize_tenant c p t = Inr ()) \<longleftrightarrow>
     (\<exists>p. authenticate c h = Inr p \<and> tenant_allowed p t)"
  using tenant_scope[of c h] by (metis Inl_Inr_False)

end

interpretation access: access_controller "Authenticate u sha" AuthorizeTenant AuthorizePolicyList AuthorizeMetrics
  for u sha
proof (unfold_locales, goal_cases)
  case (1 c h e)
  then show ?case by (cases c) (auto split: option.splits)
next
  case (2 c h p t)
  then show ?case by (cases c) (auto simp: tenant_allowed_def disabled_principal_def)
next
  case (3 c h p)
  then show ?case by (cases c) (auto simp: disabled_principal_def)
next
  case (4 c h p)
  then show ?case by (cases c) (auto simp: disabled_principal_def)
qed

section \<open>What a configured controller admits\<close>

text \<open>The principal a configuration entry stands for.\<close>

definition principal_of :: "auth_principal \<Rightarrow> principal" where
  "principal_of c = \<lparr>pr_ID = ap_ID c, pr_tenants = set (ap_Tenants c) - {''*''},
     pr_allTenants = (''*'' \<in> set (ap_Tenants c)), pr_allowTenantless = ap_AllowTenantless c,
     pr_policyReader = ap_PolicyReader c, pr_metricsReader = ap_MetricsReader c\<rparr>"

lemma add_tenants_Inr:
  "add_tenants i p ts = Inr p' \<Longrightarrow>
     p' = p\<lparr>pr_tenants := pr_tenants p \<union> (set ts - {''*''}), pr_allTenants := pr_allTenants p \<or> ''*'' \<in> set ts\<rparr>
     \<and> list_all trimmed ts"
  by (induction i p ts rule: add_tenants.induct) (auto simp: insert_Diff_if split: if_splits)

lemma read_token_Inr:
  "read_token env c = Inr token \<Longrightarrow> env (ap_TokenEnv c) = Some token \<and> 32 \<le> length token \<and> trimmed token"
  by (auto simp: read_token_def trimmed_def split: if_splits option.splits)

lemma add_principals_Cons:
  assumes "add_principals sha env table ids (c # cs) = Inr out"
  obtains token where "read_token env c = Inr token" "map_of table (sha token) = None"
    "trimmed (ap_ID c)" "ap_ID c \<notin> ids"
    "add_principals sha env (table @ [(sha token, principal_of c)]) (insert (ap_ID c) ids) cs = Inr out"
proof -
  from assms obtain token p where *: "read_token env c = Inr token" "map_of table (sha token) = None"
    "trimmed (ap_ID c)" "ap_ID c \<notin> ids"
    and p: "add_tenants (ap_ID c) \<lparr>pr_ID = ap_ID c, pr_tenants = {}, pr_allTenants = False,
             pr_allowTenantless = ap_AllowTenantless c, pr_policyReader = ap_PolicyReader c,
             pr_metricsReader = ap_MetricsReader c\<rparr> (ap_Tenants c) = Inr p"
    and rest: "add_principals sha env (table @ [(sha token, p)]) (insert (ap_ID c) ids) cs = Inr out"
    by (auto elim!: res_bind_InrE split: if_splits)
  from add_tenants_Inr[OF p] have "p = principal_of c" by (simp add: principal_of_def)
  with * rest that show ?thesis by blast
qed

text \<open>The table after the loop: one entry per principal, and no digest twice.\<close>

lemma add_principals_Inr:
  "add_principals sha env table ids cs = Inr out \<Longrightarrow> distinct (map fst table) \<Longrightarrow>
   \<exists>tokens. list_all2 (\<lambda>c token. read_token env c = Inr token) cs tokens \<and>
     out = table @ map2 (\<lambda>c token. (sha token, principal_of c)) cs tokens \<and>
     distinct (map fst out) \<and> distinct (map ap_ID cs) \<and> ids \<inter> ap_ID ` set cs = {}"
proof (induction cs arbitrary: table ids)
  case (Cons c cs)
  from Cons.prems(1) obtain token where t: "read_token env c = Inr token"
    "map_of table (sha token) = None" "ap_ID c \<notin> ids"
    and rest: "add_principals sha env (table @ [(sha token, principal_of c)]) (insert (ap_ID c) ids) cs = Inr out"
    by (rule add_principals_Cons)
  have "distinct (map fst (table @ [(sha token, principal_of c)]))"
    using Cons.prems(2) t(2) by (auto simp: map_of_eq_None_iff)
  from Cons.IH[OF rest this] obtain tokens where
    "list_all2 (\<lambda>c token. read_token env c = Inr token) cs tokens"
    "out = (table @ [(sha token, principal_of c)]) @ map2 (\<lambda>c token. (sha token, principal_of c)) cs tokens"
    "distinct (map fst out)" "distinct (map ap_ID cs)" "insert (ap_ID c) ids \<inter> ap_ID ` set cs = {}"
    by blast
  with t show ?case by (intro exI[of _ "token # tokens"]) auto
qed auto

definition has_token :: "(string \<Rightarrow> string option) \<Rightarrow> auth_principal \<Rightarrow> string \<Rightarrow> bool" where
  "has_token env c token \<longleftrightarrow> env (ap_TokenEnv c) = Some token \<and> 32 \<le> length token \<and> trimmed token"

lemma NewStaticBearer_table:
  assumes "NewStaticBearer sha cfg (Some env) = Inr ctl"
  obtains table where "ctl = StaticBearer table" "distinct (map fst table)"
    "\<And>digest p. (digest, p) \<in> set table \<longleftrightarrow>
       (\<exists>c \<in> set (ac_Principals cfg). \<exists>token. read_token env c = Inr token \<and> digest = sha token \<and> p = principal_of c)"
proof -
  from assms obtain table where ctl: "ctl = StaticBearer table"
    and add: "add_principals sha env [] {} (ac_Principals cfg) = Inr table"
    by (auto simp: NewStaticBearer_def elim!: res_bind_InrE split: if_splits)
  from add_principals_Inr[OF add] obtain tokens where
    all2: "list_all2 (\<lambda>c token. read_token env c = Inr token) (ac_Principals cfg) tokens"
    and table: "table = map2 (\<lambda>c token. (sha token, principal_of c)) (ac_Principals cfg) tokens"
    and dist: "distinct (map fst table)"
    by auto
  have "(digest, p) \<in> set table \<longleftrightarrow>
       (\<exists>c \<in> set (ac_Principals cfg). \<exists>token. read_token env c = Inr token \<and> digest = sha token \<and> p = principal_of c)"
    for digest p
    using all2 unfolding table by (induction rule: list_all2_induct) auto
  with ctl dist that show ?thesis by blast
qed

lemma Authenticate_principal:
  assumes "NewStaticBearer sha cfg (Some env) = Inr ctl" "Authenticate u sha ctl h = Inr p"
  obtains c where "c \<in> set (ac_Principals cfg)" "p = principal_of c"
proof -
  from assms(1) obtain table where ctl: "ctl = StaticBearer table"
    and mem: "\<And>digest p. (digest, p) \<in> set table \<longleftrightarrow>
       (\<exists>c \<in> set (ac_Principals cfg). \<exists>token. read_token env c = Inr token \<and> digest = sha token \<and> p = principal_of c)"
    by (rule NewStaticBearer_table) blast
  from assms(2) obtain digest where "(digest, p) \<in> set table"
    by (auto simp: ctl split: option.splits dest!: map_of_SomeD)
  with mem that show ?thesis by blast
qed

lemma Authenticate_iff:
  assumes "NewStaticBearer sha cfg (Some env) = Inr ctl"
  shows "Authenticate u sha ctl h = Inr p \<longleftrightarrow>
    (\<exists>c \<in> set (ac_Principals cfg). \<exists>token presented. has_token env c token \<and> read_token env c = Inr token \<and>
       parseBearer u h = Some presented \<and> sha presented = sha token \<and> p = principal_of c)"
proof -
  from assms obtain table where ctl: "ctl = StaticBearer table" and dist: "distinct (map fst table)"
    and mem: "\<And>digest p. (digest, p) \<in> set table \<longleftrightarrow>
       (\<exists>c \<in> set (ac_Principals cfg). \<exists>token. read_token env c = Inr token \<and> digest = sha token \<and> p = principal_of c)"
    by (rule NewStaticBearer_table) blast
  have look: "map_of table d = Some p \<longleftrightarrow> (d, p) \<in> set table" for d p
    using dist by (rule map_of_eq_Some_iff)
  have "Authenticate u sha ctl h = Inr p \<longleftrightarrow>
      (\<exists>presented. parseBearer u h = Some presented \<and> (sha presented, p) \<in> set table)"
    by (auto simp: ctl look[symmetric] split: option.splits)
  then show ?thesis
    unfolding mem using read_token_Inr by (fastforce simp: has_token_def)
qed

text \<open>
  C21. A controller built by \<open>NewStaticBearer\<close> admits a header exactly when it is a bearer header
  whose token has the digest of the token of a configured principal; the principal it yields is
  that entry, with the tenants and capabilities of the configuration and nothing more; and every
  such token has at least 32 bytes and no surrounding white space.
\<close>

theorem Authenticate_configured:
  assumes "NewStaticBearer sha cfg (Some env) = Inr ctl"
  shows "Authenticate u sha ctl h = Inr p \<longleftrightarrow>
    (\<exists>c \<in> set (ac_Principals cfg). \<exists>token presented. has_token env c token \<and> read_token env c = Inr token \<and>
       parseBearer u h = Some presented \<and> sha presented = sha token \<and> p = principal_of c)"
  by (rule Authenticate_iff[OF assms])

text \<open>
  Access to a tenant is exact: through a controller built by \<open>NewStaticBearer\<close>, a header may act
  for a tenant only as a configured principal that lists the tenant, or lists \<open>*\<close> and the tenant is
  named, or allows requests without a tenant when none is named.
\<close>

theorem tenant_access_exact:
  assumes "NewStaticBearer sha cfg (Some env) = Inr ctl"
    and "Authenticate u sha ctl h = Inr p" "AuthorizeTenant ctl p tenant = Inr ()"
  shows "\<exists>c \<in> set (ac_Principals cfg). p = principal_of c \<and>
    (if tenant = '''' then ap_AllowTenantless c else tenant \<in> set (ap_Tenants c) \<or> ''*'' \<in> set (ap_Tenants c))"
proof -
  obtain c where c: "c \<in> set (ac_Principals cfg)" "p = principal_of c"
    using assms(1,2) by (rule Authenticate_principal)
  moreover have "tenant_allowed p tenant"
    using access.tenant_scope[OF assms(2), of tenant] assms(3) by (auto split: if_splits)
  ultimately show ?thesis
    by (auto simp: tenant_allowed_def principal_of_def split: if_splits)
qed

section \<open>A configured token that no header can present\<close>

lemma parseBearer_no_space: "parseBearer u h = Some t \<Longrightarrow> CHR '' '' \<notin> set t"
  using Fields_no_ascii_space[of t h "CHR '' ''"]
  by (auto simp: parseBearer_def is_space_def split: list.splits if_splits)

text \<open>
  White space inside a token is not rejected at startup (only surrounding white space is), but
  no header can present such a token, so the principal configured with it can never authenticate.
\<close>

theorem interior_space_token_unusable:
  assumes "NewStaticBearer sha cfg (Some env) = Inr ctl"
    and "c \<in> set (ac_Principals cfg)" "env (ap_TokenEnv c) = Some token" "CHR '' '' \<in> set token"
    and no_collision: "\<And>x. sha x = sha token \<Longrightarrow> x = token"
  shows "Authenticate u sha ctl h \<noteq> Inr (principal_of c)"
proof
  assume auth: "Authenticate u sha ctl h = Inr (principal_of c)"
  from assms(1) obtain table where add: "add_principals sha env [] {} (ac_Principals cfg) = Inr table"
    by (auto simp: NewStaticBearer_def elim!: res_bind_InrE split: if_splits)
  then have ids: "distinct (map ap_ID (ac_Principals cfg))"
    using add_principals_Inr by fastforce
  from assms(1) obtain table where ctl: "ctl = StaticBearer table"
    and mem: "\<And>digest p. (digest, p) \<in> set table \<longleftrightarrow>
       (\<exists>c \<in> set (ac_Principals cfg). \<exists>token. read_token env c = Inr token \<and> digest = sha token \<and> p = principal_of c)"
    by (rule NewStaticBearer_table) blast
  from auth obtain presented where pres: "parseBearer u h = Some presented"
    and "(sha presented, principal_of c) \<in> set table"
    by (auto simp: ctl split: option.splits dest!: map_of_SomeD)
  then obtain c' tok where c': "c' \<in> set (ac_Principals cfg)" "read_token env c' = Inr tok"
    "sha presented = sha tok" "principal_of c = principal_of c'"
    using mem by blast
  then have "ap_ID c' = ap_ID c" by (simp add: principal_of_def)
  with ids c'(1) assms(2) have "c' = c" by (simp add: distinct_map inj_on_def)
  with c' assms(3) read_token_Inr[of env c tok] have "presented = token"
    by (auto intro: no_collision)
  with parseBearer_no_space[OF pres] assms(4) show False by simp
qed

section \<open>Examples\<close>

definition demo_env :: "string \<Rightarrow> string option" where
  "demo_env v = map_of [(''THINKPIXELGR_DEMO_TOKEN'', ''0123456789abcdef0123456789abcdef''),
     (''SPACED_TOKEN'', ''0123456789abcdef 123456789abcdef'')] v"

definition demo_controller :: controller where
  "demo_controller = StaticBearer [(''0123456789abcdef0123456789abcdef'',
     principal_of (hd (ac_Principals (cfg_Auth demo_config))))]"

lemmas trim_eval = trimmed_def trim_space_def rune_segs_ascii is_space_def

lemma demo_controller_eq: "NewStaticBearer (\<lambda>s. s) (cfg_Auth demo_config) (Some demo_env) = Inr demo_controller"
  by (simp add: demo_config_def NewStaticBearer_def demo_controller_def demo_env_def read_token_def
      trim_eval principal_of_def)

lemma demo_authenticates:
  "Authenticate ascii_tables (\<lambda>s. s) demo_controller ''bearer 0123456789abcdef0123456789abcdef'' =
     Inr (principal_of (hd (ac_Principals (cfg_Auth demo_config))))"
  by (simp add: demo_controller_def parseBearer_def Fields_def rune_segs_ascii is_space_def
      equal_fold_ascii lower_char_def char_eval)

theorem Authenticate_configured_witness:
  "\<exists>c \<in> set (ac_Principals (cfg_Auth demo_config)). \<exists>token presented. has_token demo_env c token \<and>
     read_token demo_env c = Inr token \<and>
     parseBearer ascii_tables ''bearer 0123456789abcdef0123456789abcdef'' = Some presented \<and>
     presented = token \<and> principal_of (hd (ac_Principals (cfg_Auth demo_config))) = principal_of c"
  using Authenticate_configured[OF demo_controller_eq] demo_authenticates by blast

theorem tenant_access_exact_witness:
  "\<exists>c \<in> set (ac_Principals (cfg_Auth demo_config)).
     principal_of (hd (ac_Principals (cfg_Auth demo_config))) = principal_of c \<and>
     (''demo'' \<in> set (ap_Tenants c) \<or> ''*'' \<in> set (ap_Tenants c))"
  using tenant_access_exact[OF demo_controller_eq demo_authenticates, of "''demo''"]
  by (simp add: demo_controller_def demo_config_def principal_of_def)

definition spaced_config :: auth_config where
  "spaced_config = \<lparr>ac_Enabled = True, ac_Principals = [\<lparr>ap_ID = ''gateway'', ap_TokenEnv = ''SPACED_TOKEN'',
     ap_Tenants = [], ap_AllowTenantless = True, ap_PolicyReader = False, ap_MetricsReader = False\<rparr>]\<rparr>"

theorem interior_space_token_unusable_witness:
  "\<exists>ctl. NewStaticBearer (\<lambda>s. s) spaced_config (Some demo_env) = Inr ctl \<and>
     (\<forall>h. Authenticate ascii_tables (\<lambda>s. s) ctl h \<noteq> Inr (principal_of (hd (ac_Principals spaced_config))))"
proof -
  have "\<exists>ctl. NewStaticBearer (\<lambda>s. s) spaced_config (Some demo_env) = Inr ctl"
    by (simp add: NewStaticBearer_def spaced_config_def demo_env_def read_token_def trim_eval)
  moreover have "hd (ac_Principals spaced_config) \<in> set (ac_Principals spaced_config)"
    "demo_env (ap_TokenEnv (hd (ac_Principals spaced_config))) = Some ''0123456789abcdef 123456789abcdef''"
    by (simp_all add: spaced_config_def demo_env_def)
  ultimately show ?thesis
    using interior_space_token_unusable[where sha = "\<lambda>s. s" and cfg = spaced_config and env = demo_env
        and token = "''0123456789abcdef 123456789abcdef''"] by fastforce
qed

end
