(* ===== verification/GR_Float.thy ===== *)
theory GR_Float
  imports GR_Prelude
begin

text \<open>
  Go's \<open>float64\<close> where the program computes with it: a float is the rational number it stands for, and
  each operation rounds its exact result to the nearest float, ties to the even one, with 53 bits of
  precision and subnormals at multiples of \<open>2^-1074\<close>. Overflow to infinity is not modelled: the sums
  of seconds of the metrics stay far below \<open>2^1024\<close>.
\<close>

section \<open>Rounding\<close>

type_synonym float64 = rat

fun bit_len :: "nat \<Rightarrow> nat" where
  "bit_len n = (if n = 0 then 0 else Suc (bit_len (n div 2)))"

declare bit_len.simps [simp del]

text \<open>The \<open>e\<close> with \<open>2^e \<le> x < 2^(e+1)\<close>, for a positive number.\<close>

definition binary_exponent :: "rat \<Rightarrow> int" where
  "binary_exponent x = (let (p, q) = quotient_of x; k = int (bit_len (nat p)) - int (bit_len (nat q)) in
     if 2 powi k \<le> x then k else k - 1)"

definition round_even :: "rat \<Rightarrow> int" where
  "round_even x = (let f = \<lfloor>x\<rfloor>; d = x - of_int f in
     if d < 1/2 then f else if 1/2 < d then f + 1 else if even f then f else f + 1)"

definition unit_of :: "rat \<Rightarrow> rat" where
  "unit_of x = 2 powi (max (binary_exponent \<bar>x\<bar> - 52) (-1074))"

definition round64 :: "rat \<Rightarrow> float64" where
  "round64 x = (if x = 0 then 0 else of_int (round_even (x / unit_of x)) * unit_of x)"

definition float_add :: "float64 \<Rightarrow> float64 \<Rightarrow> float64" where
  "float_add a b = round64 (a + b)"

lemma round64_tenth: "round64 (1/10) = 3602879701896397 / 2 ^ 55"
  by code_simp

section \<open>Precision\<close>

lemma bit_len_bounds: "0 < n \<Longrightarrow> 2 ^ (bit_len n - 1) \<le> n \<and> n < 2 ^ bit_len n \<and> 0 < bit_len n"
proof (induction n rule: bit_len.induct)
  case (1 n)
  show ?case
  proof (cases "n div 2 = 0")
    case True
    with 1 have "n = 1" by (auto simp: div_eq_0_iff)
    then show ?thesis by (simp add: bit_len.simps)
  next
    case False
    with 1 have ih: "2 ^ (bit_len (n div 2) - 1) \<le> n div 2" "n div 2 < 2 ^ bit_len (n div 2)" "0 < bit_len (n div 2)" by auto
    obtain b where b: "bit_len (n div 2) = Suc b" using ih(3) by (cases "bit_len (n div 2)") auto
    from 1 have "bit_len n = Suc (Suc b)" by (subst bit_len.simps) (simp add: b)
    with ih b show ?thesis by (simp add: b) linarith
  qed
qed

lemma powi_less_iff: "(2::rat) powi m < 2 powi n \<longleftrightarrow> m < n"
  using power_int_strict_increasing[of m n "2::rat"] power_int_increasing[of n m "2::rat"] by (cases "m < n") auto

lemma powi_nat: "(2::rat) powi int n = 2 ^ n" by (simp add: power_int_def)

lemma binary_exponent_bounds:
  assumes "0 < x"
  shows "2 powi binary_exponent x \<le> x" "x < 2 powi (binary_exponent x + 1)"
proof -
  obtain p q where pq: "quotient_of x = (p, q)" by (meson surj_pair)
  have q: "0 < q" using quotient_of_denom_pos[OF pq] .
  have x: "x = of_int p / of_int q" using quotient_of_div[OF pq] .
  with assms q have p: "0 < p" by (simp add: zero_less_divide_iff)
  let ?bp = "bit_len (nat p)" and ?bq = "bit_len (nat q)"
  have bp: "2 ^ (?bp - 1) \<le> nat p" "nat p < 2 ^ ?bp" "0 < ?bp" and bq: "2 ^ (?bq - 1) \<le> nat q" "nat q < 2 ^ ?bq" "0 < ?bq"
    using bit_len_bounds[of "nat p"] bit_len_bounds[of "nat q"] p q by auto
  have P: "(2::rat) powi (int ?bp - 1) \<le> of_int p" "(of_int p :: rat) < 2 powi int ?bp"
  proof -
    have "(2::rat) powi (int ?bp - 1) = of_nat (2 ^ (?bp - 1))" using bp(3) powi_nat[of "?bp - 1"] by (simp add: of_nat_diff)
    also have "\<dots> \<le> of_nat (nat p)" using bp(1) by (simp only: of_nat_le_iff)
    finally show "(2::rat) powi (int ?bp - 1) \<le> of_int p" using p by simp
    have "(of_nat (nat p) :: rat) < of_nat (2 ^ ?bp)" using bp(2) by (simp only: of_nat_less_iff)
    then show "(of_int p :: rat) < 2 powi int ?bp" using p by (simp add: powi_nat)
  qed
  have Q: "(2::rat) powi (int ?bq - 1) \<le> of_int q" "(of_int q :: rat) < 2 powi int ?bq"
  proof -
    have "(2::rat) powi (int ?bq - 1) = of_nat (2 ^ (?bq - 1))" using bq(3) powi_nat[of "?bq - 1"] by (simp add: of_nat_diff)
    also have "\<dots> \<le> of_nat (nat q)" using bq(1) by (simp only: of_nat_le_iff)
    finally show "(2::rat) powi (int ?bq - 1) \<le> of_int q" using q by simp
    have "(of_nat (nat q) :: rat) < of_nat (2 ^ ?bq)" using bq(2) by (simp only: of_nat_less_iff)
    then show "(of_int q :: rat) < 2 powi int ?bq" using q by (simp add: powi_nat)
  qed
  let ?k = "int ?bp - int ?bq"
  have "2 powi (?k - 1) * of_int q \<le> (2::rat) powi (?k - 1) * 2 powi int ?bq" using Q(2) by (simp add: less_imp_le)
  also have "\<dots> = 2 powi (int ?bp - 1)" by (simp flip: power_int_add del: power_int_of_nat)
  finally have low: "2 powi (?k - 1) \<le> x" using P(1) q by (simp add: x field_simps)
  have "(2::rat) powi int ?bp = 2 powi (?k + 1) * 2 powi (int ?bq - 1)" by (simp flip: power_int_add del: power_int_of_nat)
  also have "\<dots> \<le> 2 powi (?k + 1) * of_int q" using Q(1) by simp
  finally have "(of_int p :: rat) < 2 powi (?k + 1) * of_int q" by (rule less_le_trans[OF P(2)])
  then have high: "x < 2 powi (?k + 1)" using q by (simp add: x divide_less_eq)
  show "2 powi binary_exponent x \<le> x" "x < 2 powi (binary_exponent x + 1)"
    using low high by (auto simp: binary_exponent_def pq Let_def)
qed

lemma round_even_near: "\<bar>of_int (round_even x) - x\<bar> \<le> 1/2"
proof -
  have f: "of_int \<lfloor>x\<rfloor> \<le> x" "x < of_int \<lfloor>x\<rfloor> + 1" using floor_correct[of x] by auto
  then show ?thesis by (auto simp: round_even_def Let_def abs_le_iff not_less)
qed

lemma round_even_ge: "of_int n \<le> x \<Longrightarrow> n \<le> round_even x"
  using le_floor_iff[of n x] by (auto simp: round_even_def Let_def)

lemma round_even_int [simp]: "round_even (of_int n) = n"
  by (simp add: round_even_def)

text \<open>Whole numbers of up to 53 bits are floats.\<close>

lemma round64_int:
  assumes "\<bar>n\<bar> < 2 ^ 53"
  shows "round64 (of_int n) = of_int n"
proof (cases "n = 0")
  case False
  let ?x = "of_int n :: rat" and ?e = "binary_exponent \<bar>of_int n\<bar>"
  have pos: "0 < \<bar>?x\<bar>" using False by simp
  have one: "1 \<le> \<bar>?x\<bar>" using False by (metis of_int_1_le_iff of_int_abs zero_less_abs_iff int_one_le_iff_zero_less)
  have "(2::rat) powi ?e < 2 powi 53"
  proof -
    have "\<bar>?x\<bar> < of_int (2 ^ 53)" using assms by (simp only: of_int_abs[symmetric] of_int_less_iff)
    then show ?thesis using binary_exponent_bounds(1)[OF pos] by (simp add: power_int_def)
  qed
  then have e: "?e \<le> 52" unfolding powi_less_iff by simp
  have "(1::rat) < 2 powi (?e + 1)" using binary_exponent_bounds(2)[OF pos] one by simp
  then have e0: "0 \<le> ?e" using powi_less_iff[of 0 "?e + 1"] by simp
  obtain j where j: "52 - ?e = int j" using e by (metis diff_ge_0_iff_ge nonneg_int_cases)
  have u: "unit_of ?x = 1 / 2 ^ j"
  proof -
    have "max (?e - 52) (-1074) = - int j" using e0 j by auto
    then show ?thesis by (simp add: unit_of_def power_int_minus powi_nat inverse_eq_divide)
  qed
  have "?x / unit_of ?x = of_int (n * 2 ^ j)" by (simp add: u)
  then have "round64 ?x = of_int (n * 2 ^ j) * unit_of ?x" using False unfolding round64_def by (metis of_int_0_eq_iff round_even_int)
  then show ?thesis by (simp add: u)
qed (simp add: round64_def)

text \<open>Half a unit in the last place, relative to the number.\<close>

lemma round64_error:
  assumes "2 powi (-1022) \<le> x"
  shows "\<bar>round64 x - x\<bar> \<le> x / 2 ^ 53" "2 powi (-1022) \<le> round64 x"
proof -
  have pos: "0 < x" using assms by (rule less_le_trans[rotated]) simp
  let ?e = "binary_exponent x"
  note b = binary_exponent_bounds[OF pos]
  have "(2::rat) powi (-1022) < 2 powi (?e + 1)" using assms b(2) by simp
  then have e: "-1022 \<le> ?e" unfolding powi_less_iff by simp
  then have m: "max (?e - 52) (-1074) = ?e - 52" by simp
  have u: "unit_of x = 2 powi (?e - 52)" using pos by (simp only: unit_of_def abs_of_pos m)
  have upos: "0 < unit_of x" by (simp add: u)
  have "(2::rat) ^ 52 * unit_of x = 2 powi int 52 * 2 powi (?e - 52)" by (simp only: u powi_nat)
  also have "\<dots> = 2 powi (int 52 + (?e - 52))" by (rule power_int_add[symmetric]) simp
  finally have scale: "2 ^ 52 * unit_of x = 2 powi ?e" by simp
  have rx: "round64 x - x = (of_int (round_even (x / unit_of x)) - x / unit_of x) * unit_of x"
    using pos upos by (simp add: round64_def field_simps)
  have "\<bar>round64 x - x\<bar> \<le> 1/2 * unit_of x"
    using mult_right_mono[OF round_even_near[of "x / unit_of x"], of "unit_of x"] upos by (simp add: rx abs_mult)
  also have "\<dots> = 2 powi ?e / 2 ^ 53" by (simp flip: scale)
  also have "\<dots> \<le> x / 2 ^ 53" using b(1) by (simp add: divide_right_mono)
  finally show "\<bar>round64 x - x\<bar> \<le> x / 2 ^ 53" .
  have "of_int (2 ^ 52) \<le> x / unit_of x" using b(1) scale upos by (simp add: field_simps)
  then have "2 ^ 52 \<le> round_even (x / unit_of x)" by (rule round_even_ge)
  then have "(of_int (2 ^ 52) :: rat) \<le> of_int (round_even (x / unit_of x))" by (simp only: of_int_le_iff)
  then have "2 powi ?e \<le> round64 x"
    using mult_right_mono[of "of_int (2 ^ 52)" "of_int (round_even (x / unit_of x))" "unit_of x"] upos pos
    by (simp add: round64_def flip: scale)
  moreover have "(2::rat) powi (-1022) \<le> 2 powi ?e" by (rule power_int_increasing[OF e]) simp_all
  ultimately show "2 powi (-1022) \<le> round64 x" by simp
qed

text \<open>Sums accumulated from zero, as a histogram accumulates them.\<close>

definition normal_or_zero :: "rat \<Rightarrow> bool" where
  "normal_or_zero v \<longleftrightarrow> v = 0 \<or> 2 powi (-1022) \<le> v"

definition float_sum :: "float64 list \<Rightarrow> float64" where
  "float_sum = foldl float_add 0"

lemma abs_near: "\<bar>f - a\<bar> \<le> d \<Longrightarrow> a - d \<le> f" "\<bar>f - a\<bar> \<le> d \<Longrightarrow> f \<le> a + d" for a d f :: rat
  by linarith+

lemma float_add_near:
  assumes "normal_or_zero (a + b)"
  shows "\<bar>float_add a b - (a + b)\<bar> \<le> (a + b) / 2 ^ 53" "normal_or_zero (float_add a b)"
  using assms round64_error[of "a + b"] by (auto simp: float_add_def normal_or_zero_def round64_def)

text \<open>After \<open>n\<close> additions of durations the sum is off by a factor of at most \<open>(1 + 2^-53)^n\<close>.\<close>

lemma float_sum_accurate:
  assumes "list_all normal_or_zero vs"
  shows "normal_or_zero (float_sum vs)"
    "(1 - 1 / 2 ^ 53) ^ length vs * sum_list vs \<le> float_sum vs"
    "float_sum vs \<le> (1 + 1 / 2 ^ 53) ^ length vs * sum_list vs"
proof -
  let ?d = "1 - 1 / 2 ^ 53 :: rat" and ?u = "1 + 1 / 2 ^ 53 :: rat"
  have "normal_or_zero (float_sum vs) \<and> ?d ^ length vs * sum_list vs \<le> float_sum vs \<and>
      float_sum vs \<le> ?u ^ length vs * sum_list vs \<and> 0 \<le> sum_list vs"
    using assms
  proof (induction vs rule: rev_induct)
    case (snoc v vs)
    let ?s = "float_sum vs" and ?S = "sum_list vs" and ?n = "length vs"
    have v: "normal_or_zero v" "0 \<le> v"
    proof -
      show "normal_or_zero v" using snoc.prems by simp
      then show "0 \<le> v" unfolding normal_or_zero_def by (metis order_trans zero_le_power_int order_refl zero_le_numeral)
    qed
    have ih: "normal_or_zero ?s" "?d ^ ?n * ?S \<le> ?s" "?s \<le> ?u ^ ?n * ?S" "0 \<le> ?S" using snoc by simp_all
    have s0: "0 \<le> ?s" using ih(1) unfolding normal_or_zero_def by (metis order_trans zero_le_power_int order_refl zero_le_numeral)
    have "normal_or_zero (?s + v)" using ih(1) v s0 by (auto simp: normal_or_zero_def)
    note near = float_add_near[OF this]
    have sum: "float_sum (vs @ [v]) = float_add ?s v" by (simp add: float_sum_def)
    have lo: "?d * (?s + v) \<le> float_add ?s v" and hi: "float_add ?s v \<le> ?u * (?s + v)"
    proof -
      have eq: "?d * (?s + v) = (?s + v) - (?s + v) / 2 ^ 53" "?u * (?s + v) = (?s + v) + (?s + v) / 2 ^ 53"
        by (simp_all add: field_simps)
      show "?d * (?s + v) \<le> float_add ?s v" unfolding eq(1) by (rule abs_near(1)[OF near(1)])
      show "float_add ?s v \<le> ?u * (?s + v)" unfolding eq(2) by (rule abs_near(2)[OF near(1)])
    qed
    have "?d ^ Suc ?n * (?S + v) \<le> ?d * (?s + v)"
    proof -
      have "?d ^ ?n * v \<le> 1 * v" using v(2) by (intro mult_right_mono power_le_one) auto
      then have "?d ^ ?n * (?S + v) \<le> ?s + v" using ih(2) by (simp add: algebra_simps)
      then show ?thesis using mult_left_mono[of "?d ^ ?n * (?S + v)" "?s + v" ?d] by (simp add: mult.assoc)
    qed
    moreover have "?u * (?s + v) \<le> ?u ^ Suc ?n * (?S + v)"
    proof -
      have "1 * v \<le> ?u ^ ?n * v" using v(2) by (intro mult_right_mono one_le_power) auto
      then have "?s + v \<le> ?u ^ ?n * (?S + v)" using ih(3) by (simp add: algebra_simps)
      then show ?thesis using mult_left_mono[of "?s + v" "?u ^ ?n * (?S + v)" ?u] by (simp add: mult.assoc)
    qed
    ultimately have "?d ^ Suc ?n * (?S + v) \<le> float_add ?s v \<and> float_add ?s v \<le> ?u ^ Suc ?n * (?S + v)"
      using lo hi order_trans by blast
    then show ?case using near(2) ih(4) v(2) by (simp only: sum length_append sum_list_append list.size sum_list_simps add_0_right) simp
  qed (simp add: float_sum_def normal_or_zero_def)
  then show "normal_or_zero (float_sum vs)" "?d ^ length vs * sum_list vs \<le> float_sum vs"
    "float_sum vs \<le> ?u ^ length vs * sum_list vs" by blast+
qed

end
