(* ===== verification/GR_Metrics.thy ===== *)
theory GR_Metrics
  imports GR_Strings GR_Time GR_Domain GR_Float "HOL-Library.Word"
begin

text \<open>
  The metrics of \<open>internal/observability/observability.go\<close>: the bounded labels, the histograms, the
  counters of the \<open>Service\<close> and what recording an observation does to them. Counters are \<open>uint64\<close>
  and wrap; seconds are \<open>float64\<close> values, rounded by every operation as in \<open>GR_Float\<close>. The maps
  of the service are association lists; the mutex makes each recording one step.
\<close>

section \<open>Observations and labels\<close>

record failure_summary =
  fs_PolicyID :: string
  fs_DetectorID :: string
  fs_Scope :: string
  fs_Code :: string
  fs_Mode :: string

record evaluation_observation =
  eo_Stage :: string
  eo_Outcome :: string
  eo_Action :: string
  eo_Duration :: duration
  eo_FindingCategories :: "string list"
  eo_DetectorTimings :: "(string \<times> int) list"
  eo_Failures :: "failure_summary list"

record http_observation =
  ho_Method :: string
  ho_Route :: string
  ho_Status :: int

definition metricMethod :: "string \<Rightarrow> string" where
  "metricMethod v = (if v = ''GET'' \<or> v = ''POST'' then v else ''OTHER'')"

definition boundedLabel :: "string \<Rightarrow> string \<Rightarrow> string" where
  "boundedLabel v fallback = (if v = '''' then fallback else if 128 < length v then ''oversized'' else v)"

definition stage_labels :: "string list" where
  "stage_labels = [''pre_request'', ''pre_model'', ''post_model'', ''pre_tool'', ''post_tool'', ''pre_retrieval'',
     ''post_retrieval'', ''ingestion'']"

definition metricStage :: "string \<Rightarrow> string" where
  "metricStage v = (if v \<in> set stage_labels then v else ''unknown'')"

definition metricOutcome :: "string \<Rightarrow> string" where
  "metricOutcome v = (if v = ''completed'' \<or> v = ''rejected'' then v else ''unknown'')"

definition metricAction :: "string \<Rightarrow> string" where
  "metricAction v = (if v \<in> set [''allow'', ''block'', ''redact'', ''monitor''] then v else ''none'')"

definition metricFailureCode :: "string \<Rightarrow> string" where
  "metricFailureCode v = (if v \<in> set [''POLICY_TIMEOUT'', ''DETECTOR_TIMEOUT'', ''DETECTOR_UNAVAILABLE'',
     ''DETECTOR_INVALID_RESPONSE'', ''DETECTOR_UNSUPPORTED_INPUT'', ''DETECTOR_INTERNAL_ERROR''] then v else ''unknown'')"

definition metricFailureMode :: "string \<Rightarrow> string" where
  "metricFailureMode v = (if v = ''open'' \<or> v = ''closed'' \<or> v = ''monitor'' then v else ''unknown'')"

section \<open>Histograms\<close>

record histogram =
  hg_buckets :: "64 word list"
  hg_count :: "64 word"
  hg_sum :: float64

definition latencyBuckets :: "float64 list" where
  "latencyBuckets = map round64 [1/1000, 5/1000, 1/100, 25/1000, 5/100, 1/10, 25/100, 1/2, 1, 5/2, 5, 10]"

definition empty_histogram :: histogram where
  "empty_histogram = \<lparr>hg_buckets = replicate (length latencyBuckets) 0, hg_count = 0, hg_sum = 0\<rparr>"

definition observe_value :: "float64 \<Rightarrow> histogram \<Rightarrow> histogram" where
  "observe_value v h = \<lparr>hg_buckets = map (\<lambda>(upper, n). if v \<le> upper then n + 1 else n) (zip latencyBuckets (hg_buckets h)),
     hg_count = hg_count h + 1, hg_sum = float_add (hg_sum h) v\<rparr>"

definition observeHistogram :: "(string \<times> histogram) list \<Rightarrow> string \<Rightarrow> float64 \<Rightarrow> (string \<times> histogram) list" where
  "observeHistogram coll key v = AList.update key
     (observe_value v (case map_of coll key of Some h \<Rightarrow> h | None \<Rightarrow> empty_histogram)) coll"

section \<open>The service's counters\<close>

type_synonym http_key = "string \<times> string \<times> int"
type_synonym evaluation_key = "string \<times> string \<times> string"
type_synonym failure_key = "string \<times> string"

record metrics =
  mt_http :: "(http_key \<times> 64 word) list"
  mt_evaluations :: "(evaluation_key \<times> 64 word) list"
  mt_evaluation_latency :: "(string \<times> histogram) list"
  mt_detector_latency :: "(string \<times> histogram) list"
  mt_findings :: "(string \<times> 64 word) list"
  mt_failures :: "(failure_key \<times> 64 word) list"

definition no_metrics :: metrics where
  "no_metrics = \<lparr>mt_http = [], mt_evaluations = [], mt_evaluation_latency = [], mt_detector_latency = [],
     mt_findings = [], mt_failures = []\<rparr>"

text \<open>\<open>m[key]++\<close>\<close>

definition increment :: "'k \<Rightarrow> ('k \<times> 64 word) list \<Rightarrow> ('k \<times> 64 word) list" where
  "increment key m = AList.map_default key 1 (\<lambda>n. n + 1) m"

text \<open>\<open>Duration.Seconds\<close>: \<open>float64(d / Second) + float64(d % Second) / 1e9\<close>\<close>

definition duration_seconds :: "duration \<Rightarrow> float64" where
  "duration_seconds d = (let sec = go_div d second; nsec = d - second * sec in
     float_add (round64 (of_int sec)) (round64 (round64 (of_int nsec) / 1000000000)))"

text \<open>\<open>float64(milliseconds) / 1000\<close>\<close>

definition milli_seconds :: "int \<Rightarrow> float64" where
  "milli_seconds ms = round64 (round64 (of_int ms) / 1000)"

definition failure_label :: "failure_summary \<Rightarrow> failure_key" where
  "failure_label f = (metricFailureCode (fs_Code f), metricFailureMode (fs_Mode f))"

definition evaluation_label :: "evaluation_observation \<Rightarrow> evaluation_key" where
  "evaluation_label o' = (metricStage (eo_Stage o'), metricOutcome (eo_Outcome o'), metricAction (eo_Action o'))"

definition RecordEvaluation :: "metrics \<Rightarrow> evaluation_observation \<Rightarrow> metrics" where
  "RecordEvaluation m o' = m\<lparr>
     mt_evaluations := increment (evaluation_label o') (mt_evaluations m),
     mt_evaluation_latency := observeHistogram (mt_evaluation_latency m) (metricStage (eo_Stage o')) (duration_seconds (eo_Duration o')),
     mt_findings := fold (\<lambda>c. increment (boundedLabel c ''unknown'')) (eo_FindingCategories o') (mt_findings m),
     mt_detector_latency := fold (\<lambda>(d, ms) coll. observeHistogram coll (boundedLabel d ''unknown'') (milli_seconds ms))
       (eo_DetectorTimings o') (mt_detector_latency m),
     mt_failures := fold (\<lambda>f. increment (failure_label f)) (eo_Failures o') (mt_failures m)\<rparr>"

definition http_label :: "http_observation \<Rightarrow> http_key" where
  "http_label o' = (metricMethod (ho_Method o'), boundedLabel (ho_Route o') ''unknown'',
     if ho_Status o' < 100 \<or> 599 < ho_Status o' then 0 else ho_Status o')"

definition RecordHTTP :: "metrics \<Rightarrow> http_observation \<Rightarrow> metrics" where
  "RecordHTTP m o' = m\<lparr>mt_http := increment (http_label o') (mt_http m)\<rparr>"

section \<open>What the counters count\<close>

definition tally :: "('k \<times> 64 word) list \<Rightarrow> 'k \<Rightarrow> 64 word" where
  "tally m k = (case map_of m k of Some n \<Rightarrow> n | None \<Rightarrow> 0)"

lemma tally_increment: "tally (increment k m) k' = tally m k' + (if k = k' then 1 else 0)"
  by (simp add: tally_def increment_def AList.map_of_map_default split: option.split)

lemma tally_fold: "tally (fold (\<lambda>x. increment (f x)) xs m) k = tally m k + of_nat (length (filter (\<lambda>x. f x = k) xs))"
  by (induction xs arbitrary: m) (simp_all add: tally_increment)

text \<open>A histogram that has seen the given values.\<close>

definition sampled :: "histogram \<Rightarrow> float64 list \<Rightarrow> bool" where
  "sampled h vs \<longleftrightarrow> hg_buckets h = map (\<lambda>upper. of_nat (length (filter (\<lambda>v. v \<le> upper) vs))) latencyBuckets \<and>
     hg_count h = of_nat (length vs) \<and> hg_sum h = float_sum vs"

lemma sampled_empty: "sampled empty_histogram []"
  by (simp add: sampled_def empty_histogram_def map_replicate_const float_sum_def)

lemma sampled_observe: "sampled h vs \<Longrightarrow> sampled (observe_value v h) (vs @ [v])"
  by (simp add: sampled_def observe_value_def zip_map2 zip_same_conv_map add.commute float_sum_def)

definition histogram_at :: "(string \<times> histogram) list \<Rightarrow> string \<Rightarrow> histogram" where
  "histogram_at coll key = (case map_of coll key of Some h \<Rightarrow> h | None \<Rightarrow> empty_histogram)"

lemma histogram_at_observe:
  "histogram_at (observeHistogram coll k v) k' = (if k = k' then observe_value v (histogram_at coll k) else histogram_at coll k')"
  by (simp add: histogram_at_def observeHistogram_def update_conv')

lemma sampled_observeHistogram:
  "(\<And>k. sampled (histogram_at coll k) (vs k)) \<Longrightarrow>
     sampled (histogram_at (observeHistogram coll k v) k') (vs k' @ (if k = k' then [v] else []))"
  by (simp add: histogram_at_observe sampled_observe)

lemma sampled_fold:
  assumes "\<And>k. sampled (histogram_at coll k) (vs k)"
  shows "sampled (histogram_at (fold (\<lambda>x coll. observeHistogram coll (f x) (g x)) xs coll) k)
    (vs k @ map g (filter (\<lambda>x. f x = k) xs))"
  using assms
proof (induction xs arbitrary: coll vs)
  case (Cons x xs)
  from Cons.IH[of "observeHistogram coll (f x) (g x)" "\<lambda>k. vs k @ (if f x = k then [g x] else [])",
      OF sampled_observeHistogram[OF Cons.prems]]
  show ?case by (cases "f x = k") simp_all
qed simp

text \<open>The state after a sequence of recordings of either kind, from the start.\<close>

fun record_either :: "metrics \<Rightarrow> evaluation_observation + http_observation \<Rightarrow> metrics" where
  "record_either m (Inl o') = RecordEvaluation m o'"
| "record_either m (Inr o') = RecordHTTP m o'"

definition recorded :: "(evaluation_observation + http_observation) list \<Rightarrow> metrics" where
  "recorded = foldl record_either no_metrics"

definition evaluations_in :: "(evaluation_observation + http_observation) list \<Rightarrow> evaluation_observation list" where
  "evaluations_in os = [x. Inl x \<leftarrow> os]"

definition requests_in :: "(evaluation_observation + http_observation) list \<Rightarrow> http_observation list" where
  "requests_in os = [x. Inr x \<leftarrow> os]"

definition counts_evaluations :: "metrics \<Rightarrow> evaluation_observation list \<Rightarrow> bool" where
  "counts_evaluations m os \<longleftrightarrow>
     (\<forall>k. tally (mt_evaluations m) k = of_nat (length (filter (\<lambda>x. evaluation_label x = k) os))) \<and>
     (\<forall>k. tally (mt_findings m) k = of_nat (length (filter (\<lambda>c. boundedLabel c ''unknown'' = k) (concat (map eo_FindingCategories os))))) \<and>
     (\<forall>k. tally (mt_failures m) k = of_nat (length (filter (\<lambda>f. failure_label f = k) (concat (map eo_Failures os))))) \<and>
     (\<forall>k. sampled (histogram_at (mt_evaluation_latency m) k)
        (map (\<lambda>x. duration_seconds (eo_Duration x)) (filter (\<lambda>x. metricStage (eo_Stage x) = k) os))) \<and>
     (\<forall>k. sampled (histogram_at (mt_detector_latency m) k)
        (map (\<lambda>t. milli_seconds (snd t)) (filter (\<lambda>t. boundedLabel (fst t) ''unknown'' = k) (concat (map eo_DetectorTimings os)))))"

lemma counts_none: "counts_evaluations no_metrics []"
  by (simp add: counts_evaluations_def no_metrics_def tally_def histogram_at_def sampled_empty)

lemma counts_step:
  assumes "counts_evaluations m os"
  shows "counts_evaluations (RecordEvaluation m x) (os @ [x])"
proof -
  from assms have a: "tally (mt_evaluations m) k = of_nat (length (filter (\<lambda>x. evaluation_label x = k) os))"
    "tally (mt_findings m) k' = of_nat (length (filter (\<lambda>c. boundedLabel c ''unknown'' = k') (concat (map eo_FindingCategories os))))"
    "tally (mt_failures m) k'' = of_nat (length (filter (\<lambda>f. failure_label f = k'') (concat (map eo_Failures os))))"
    "sampled (histogram_at (mt_evaluation_latency m) k')
      (map (\<lambda>x. duration_seconds (eo_Duration x)) (filter (\<lambda>x. metricStage (eo_Stage x) = k') os))"
    "sampled (histogram_at (mt_detector_latency m) k')
      (map (\<lambda>t. milli_seconds (snd t)) (filter (\<lambda>t. boundedLabel (fst t) ''unknown'' = k') (concat (map eo_DetectorTimings os))))"
    for k k' k'' unfolding counts_evaluations_def by blast+
  have "tally (mt_evaluations (RecordEvaluation m x)) k = of_nat (length (filter (\<lambda>x. evaluation_label x = k) (os @ [x])))" for k
    by (simp add: RecordEvaluation_def tally_increment a(1) add.commute)
  moreover have "tally (mt_findings (RecordEvaluation m x)) k =
      of_nat (length (filter (\<lambda>c. boundedLabel c ''unknown'' = k) (concat (map eo_FindingCategories (os @ [x])))))" for k
    by (simp add: RecordEvaluation_def tally_fold a(2))
  moreover have "tally (mt_failures (RecordEvaluation m x)) k =
      of_nat (length (filter (\<lambda>f. failure_label f = k) (concat (map eo_Failures (os @ [x])))))" for k
    by (simp add: RecordEvaluation_def tally_fold a(3))
  moreover have "sampled (histogram_at (mt_evaluation_latency (RecordEvaluation m x)) k)
      (map (\<lambda>x. duration_seconds (eo_Duration x)) (filter (\<lambda>x. metricStage (eo_Stage x) = k) (os @ [x])))" for k
    using sampled_observeHistogram[of "mt_evaluation_latency m"
        "\<lambda>k. map (\<lambda>x. duration_seconds (eo_Duration x)) (filter (\<lambda>x. metricStage (eo_Stage x) = k) os)"
        "metricStage (eo_Stage x)" "duration_seconds (eo_Duration x)" k, OF a(4)]
    by (cases "metricStage (eo_Stage x) = k") (simp_all add: RecordEvaluation_def)
  moreover have "sampled (histogram_at (mt_detector_latency (RecordEvaluation m x)) k)
      (map (\<lambda>t. milli_seconds (snd t)) (filter (\<lambda>t. boundedLabel (fst t) ''unknown'' = k) (concat (map eo_DetectorTimings (os @ [x])))))" for k
    using sampled_fold[of "mt_detector_latency m"
        "\<lambda>k. map (\<lambda>t. milli_seconds (snd t)) (filter (\<lambda>t. boundedLabel (fst t) ''unknown'' = k) (concat (map eo_DetectorTimings os)))"
        "\<lambda>t. boundedLabel (fst t) ''unknown''" "\<lambda>t. milli_seconds (snd t)" "eo_DetectorTimings x" k, OF a(5)]
    by (simp add: RecordEvaluation_def case_prod_beta')
  ultimately show ?thesis unfolding counts_evaluations_def by blast
qed

lemma counts_http_free: "counts_evaluations m os \<Longrightarrow> counts_evaluations (RecordHTTP m x) os"
  by (simp add: counts_evaluations_def RecordHTTP_def)

lemma tally_http: "tally (mt_http (RecordHTTP m x)) k = tally (mt_http m) k + (if http_label x = k then 1 else 0)"
  "mt_http (RecordEvaluation m o') = mt_http m"
  by (simp_all add: RecordHTTP_def RecordEvaluation_def tally_increment)

text \<open>
  C36. After any sequence of recordings, of evaluations and of HTTP requests in any order, the counters
  are exact modulo 2^64: each request is counted once under its own label, and so are the outcome, the
  findings and the failures of each evaluation. Each histogram shows the sequence of the values
  observed under its label: bucket by bucket the number not above its bound, their number, and their
  sum as \<open>float64\<close> accumulates it.
\<close>

theorem metrics_refine_observations:
  "counts_evaluations (recorded os) (evaluations_in os) \<and>
    (\<forall>k. tally (mt_http (recorded os)) k = of_nat (length (filter (\<lambda>x. http_label x = k) (requests_in os))))"
proof (induction os rule: rev_induct)
  case Nil
  then show ?case by (simp add: recorded_def evaluations_in_def requests_in_def counts_none) (simp add: no_metrics_def tally_def)
next
  case (snoc x os)
  have "recorded (os @ [x]) = record_either (recorded os) x" by (simp add: recorded_def)
  with snoc show ?case
    by (cases x) (simp_all add: evaluations_in_def requests_in_def counts_step counts_http_free tally_http add.commute)
qed

text \<open>
  How far the sums can be from the exact ones: for observations that are not negative, \<open>n\<close> of them are
  summed within a factor of \<open>(1 + 2^-53)^n\<close>.
\<close>

theorem histogram_sum_accurate:
  assumes "sampled h vs" "list_all normal_or_zero vs"
  shows "(1 - 1 / 2 ^ 53) ^ length vs * sum_list vs \<le> hg_sum h \<and> hg_sum h \<le> (1 + 1 / 2 ^ 53) ^ length vs * sum_list vs"
  using float_sum_accurate[OF assms(2)] assms(1) by (simp add: sampled_def)

section \<open>The label sets are bounded\<close>

definition method_labels :: "string list" where "method_labels = [''GET'', ''POST'', ''OTHER'']"

definition outcome_labels :: "string list" where "outcome_labels = [''completed'', ''rejected'', ''unknown'']"

definition action_labels :: "string list" where
  "action_labels = [''allow'', ''block'', ''redact'', ''monitor'', ''none'']"

lemma card_triple:
  "finite A \<Longrightarrow> finite B \<Longrightarrow> finite C \<Longrightarrow> card A \<le> i \<Longrightarrow> card B \<le> j \<Longrightarrow> card C \<le> k \<Longrightarrow> S \<subseteq> A \<times> B \<times> C \<Longrightarrow>
     card S \<le> i * (j * k)" for A :: "'a set" and B :: "'b set" and C :: "'c set"
  by (rule order_trans[OF card_mono[of "A \<times> B \<times> C" S]]) (auto simp: card_cartesian_product intro!: mult_le_mono)

lemma label_ranges:
  "metricStage v \<in> set (''unknown'' # stage_labels)" "metricOutcome v \<in> set outcome_labels" "metricAction v \<in> set action_labels"
  by (simp_all only: metricStage_def metricOutcome_def metricAction_def outcome_labels_def action_labels_def) simp_all

lemma keys_increment: "fst ` set (increment k m) = insert k (fst ` set m)"
  by (induction m) (auto simp: increment_def)

lemma keys_fold_increment: "fst ` set (fold (\<lambda>x. increment (f x)) xs m) = f ` set xs \<union> fst ` set m"
  by (induction xs arbitrary: m) (auto simp: keys_increment)

lemma foldl_evaluation_keys:
  "fst ` set (mt_evaluations (foldl RecordEvaluation m os)) = evaluation_label ` set os \<union> fst ` set (mt_evaluations m)"
  by (induction os arbitrary: m) (auto simp: RecordEvaluation_def keys_increment)

lemma foldl_http_keys:
  "fst ` set (mt_http (foldl RecordHTTP m os)) = http_label ` set os \<union> fst ` set (mt_http m)"
  by (induction os arbitrary: m) (auto simp: RecordHTTP_def keys_increment)

text \<open>
  However many requests are served, and whatever their methods, stages and statuses, the series
  of the evaluation counter stay within 135 label combinations, and those of the request counter
  within 3 methods times 501 statuses for each route the caller of the recorder uses.
\<close>

theorem label_sets_bounded:
  assumes "finite routes" "\<And>x. x \<in> set hs \<Longrightarrow> boundedLabel (ho_Route x) ''unknown'' \<in> routes"
  shows "card (fst ` set (mt_evaluations (foldl RecordEvaluation no_metrics os))) \<le> 135 \<and>
    card (fst ` set (mt_http (foldl RecordHTTP no_metrics hs))) \<le> 1503 * card routes"
proof
  have "fst ` set (mt_evaluations (foldl RecordEvaluation no_metrics os)) \<subseteq>
      set (''unknown'' # stage_labels) \<times> set outcome_labels \<times> set action_labels"
    unfolding foldl_evaluation_keys using label_ranges
    by (auto simp only: no_metrics_def evaluation_label_def metrics.simps list.set image_empty Un_empty_right image_subset_iff mem_Times_iff fst_conv snd_conv)
  from card_triple[OF _ _ _ card_length card_length card_length this]
  show "card (fst ` set (mt_evaluations (foldl RecordEvaluation no_metrics os))) \<le> 135"
    by (simp add: stage_labels_def outcome_labels_def action_labels_def)
  have "http_label x \<in> set method_labels \<times> routes \<times> insert (0::int) {100..599}" if "x \<in> set hs" for x
    using assms(2)[OF that] by (simp add: http_label_def metricMethod_def method_labels_def)
  then have "fst ` set (mt_http (foldl RecordHTTP no_metrics hs)) \<subseteq> set method_labels \<times> routes \<times> insert (0::int) {100..599}"
    unfolding foldl_http_keys by (simp add: no_metrics_def image_subset_iff)
  from card_triple[OF _ assms(1) _ card_length _ _ this, of "card routes" 501]
  show "card (fst ` set (mt_http (foldl RecordHTTP no_metrics hs))) \<le> 1503 * card routes"
    by (simp add: method_labels_def card_insert_if)
qed

theorem label_sets_bounded_witness:
  "card (fst ` set (mt_http (foldl RecordHTTP no_metrics [\<lparr>ho_Method = ''PUT'', ho_Route = ''/metrics'', ho_Status = 405\<rparr>]))) \<le> 1503"
  using label_sets_bounded[of "{''/metrics''}" "[\<lparr>ho_Method = ''PUT'', ho_Route = ''/metrics'', ho_Status = 405\<rparr>]"]
  by (simp add: boundedLabel_def)

end
