(* ===== verification/GR_Exposition.thy ===== *)
theory GR_Exposition
  imports GR_Metrics
begin

text \<open>
  The text of \<open>GET /metrics\<close>: \<open>writeMetrics\<close>, \<open>writeHistograms\<close>, \<open>quoteLabel\<close> and the sorted keys,
  of \<open>internal/observability/observability.go\<close>. The text is a list of lines, each written with a
  newline after it. \<open>strconv.FormatFloat(x, 'g', -1, 64)\<close> is an argument (\<open>fmt\<close>).
\<close>

abbreviation newline :: char where "newline \<equiv> CHR 0x0A"
abbreviation backslash :: char where "backslash \<equiv> CHR 0x5C"
abbreviation dquote :: char where "dquote \<equiv> CHR 0x22"

section \<open>Rendering\<close>

definition quoteLabel :: "string \<Rightarrow> string" where
  "quoteLabel v = (let v = replace_char backslash [backslash, backslash] v;
       v = replace_char newline [backslash, CHR ''n''] v;
       v = replace_char dquote [backslash, dquote] v in
     dquote # v @ [dquote])"

text \<open>\<open>%q\<close> of printable ASCII text without quotes or backslashes.\<close>

definition plain_quote :: "string \<Rightarrow> string" where
  "plain_quote v = dquote # v @ [dquote]"

definition show_count :: "64 word \<Rightarrow> string" where
  "show_count n = show_nat (unat n)"

text \<open>\<open>fmt.Sprint\<close> of a key, by which keys are sorted.\<close>

definition sprint_http :: "http_key \<Rightarrow> string" where
  "sprint_http k = (case k of (m, r, s) \<Rightarrow> ''{'' @ m @ '' '' @ r @ '' '' @ show_int s @ ''}'')"

definition sprint_evaluation :: "evaluation_key \<Rightarrow> string" where
  "sprint_evaluation k = (case k of (s, oc, a) \<Rightarrow> ''{'' @ s @ '' '' @ oc @ '' '' @ a @ ''}'')"

definition sprint_failure :: "failure_key \<Rightarrow> string" where
  "sprint_failure k = (case k of (c, m) \<Rightarrow> ''{'' @ c @ '' '' @ m @ ''}'')"

definition sortedStringKeys :: "(string \<times> 'a) list \<Rightarrow> string list" where
  "sortedStringKeys m = sort (map fst m)"

definition sortedHTTPKeys :: "(http_key \<times> 64 word) list \<Rightarrow> http_key list" where
  "sortedHTTPKeys m = sort_key sprint_http (map fst m)"

definition sortedEvaluationKeys :: "(evaluation_key \<times> 64 word) list \<Rightarrow> evaluation_key list" where
  "sortedEvaluationKeys m = sort_key sprint_evaluation (map fst m)"

definition sortedFailureKeys :: "(failure_key \<times> 64 word) list \<Rightarrow> failure_key list" where
  "sortedFailureKeys m = sort_key sprint_failure (map fst m)"

definition metric_help :: "string \<Rightarrow> string \<Rightarrow> string \<Rightarrow> string list" where
  "metric_help name what kind = [''# HELP '' @ name @ '' '' @ what, ''# TYPE '' @ name @ '' '' @ kind]"

definition http_line :: "metrics \<Rightarrow> http_key \<Rightarrow> string" where
  "http_line m k = (case k of (meth, route, status) \<Rightarrow>
     ''thinkpixelgr_http_requests_total{method='' @ quoteLabel meth @ '',route='' @ quoteLabel route @ '',status='' @
     plain_quote (show_int status) @ ''} '' @ show_count (tally (mt_http m) k))"

definition evaluation_line :: "metrics \<Rightarrow> evaluation_key \<Rightarrow> string" where
  "evaluation_line m k = (case k of (stage, oc, act) \<Rightarrow>
     ''thinkpixelgr_evaluations_total{action='' @ quoteLabel act @ '',outcome='' @ quoteLabel oc @ '',stage='' @
     quoteLabel stage @ ''} '' @ show_count (tally (mt_evaluations m) k))"

definition finding_line :: "metrics \<Rightarrow> string \<Rightarrow> string" where
  "finding_line m c = ''thinkpixelgr_findings_total{category='' @ quoteLabel c @ ''} '' @ show_count (tally (mt_findings m) c)"

definition failure_line :: "metrics \<Rightarrow> failure_key \<Rightarrow> string" where
  "failure_line m k = (case k of (code, mode) \<Rightarrow>
     ''thinkpixelgr_detector_failures_total{code='' @ quoteLabel code @ '',failure_mode='' @ quoteLabel mode @ ''} '' @
     show_count (tally (mt_failures m) k))"

definition histogram_lines :: "(rat \<Rightarrow> string) \<Rightarrow> string \<Rightarrow> string \<Rightarrow> string \<Rightarrow> histogram \<Rightarrow> string list" where
  "histogram_lines fmt name label key h = (let lab = label @ ''='' @ quoteLabel key in
     map (\<lambda>(upper, n). name @ ''_bucket{'' @ lab @ '',le='' @ plain_quote (fmt upper) @ ''} '' @ show_count n)
       (zip latencyBuckets (hg_buckets h)) @
     [name @ ''_bucket{'' @ lab @ '',le='' @ plain_quote ''+Inf'' @ ''} '' @ show_count (hg_count h),
      name @ ''_sum{'' @ lab @ ''} '' @ fmt (hg_sum h), name @ ''_count{'' @ lab @ ''} '' @ show_count (hg_count h)])"

definition writeHistograms :: "(rat \<Rightarrow> string) \<Rightarrow> string \<Rightarrow> string \<Rightarrow> string \<Rightarrow> (string \<times> histogram) list \<Rightarrow> string list" where
  "writeHistograms fmt name what label coll = metric_help name what ''histogram'' @
     concat (map (\<lambda>key. histogram_lines fmt name label key (histogram_at coll key)) (sortedStringKeys coll))"

definition metric_lines :: "(rat \<Rightarrow> string) \<Rightarrow> metrics \<Rightarrow> string list" where
  "metric_lines fmt m =
     metric_help ''thinkpixelgr_http_requests_total'' ''HTTP requests by bounded route and status.'' ''counter'' @
     map (http_line m) (sortedHTTPKeys (mt_http m)) @
     metric_help ''thinkpixelgr_evaluations_total'' ''Evaluation attempts by stage, outcome, and action.'' ''counter'' @
     map (evaluation_line m) (sortedEvaluationKeys (mt_evaluations m)) @
     writeHistograms fmt ''thinkpixelgr_evaluation_duration_seconds'' ''Evaluation latency by stage.'' ''stage'' (mt_evaluation_latency m) @
     writeHistograms fmt ''thinkpixelgr_detector_duration_seconds'' ''Detector latency by configured detector identifier.'' ''detector'' (mt_detector_latency m) @
     metric_help ''thinkpixelgr_findings_total'' ''Findings by configured category.'' ''counter'' @
     map (finding_line m) (sortedStringKeys (mt_findings m)) @
     metric_help ''thinkpixelgr_detector_failures_total'' ''Detector and policy execution failures by bounded code and mode.'' ''counter'' @
     map (failure_line m) (sortedFailureKeys (mt_failures m))"

definition writeMetrics :: "(rat \<Rightarrow> string) \<Rightarrow> metrics \<Rightarrow> string" where
  "writeMetrics fmt m = concat (map (\<lambda>l. l @ [newline]) (metric_lines fmt m))"

section \<open>Labels are quoted losslessly\<close>

definition escape_char :: "char \<Rightarrow> string" where
  "escape_char c = (if c = backslash then [backslash, backslash] else if c = newline then [backslash, CHR ''n'']
     else if c = dquote then [backslash, dquote] else [c])"

lemma replace_char_append: "replace_char c new (s @ t) = replace_char c new s @ replace_char c new t"
  by (simp add: replace_char_def)

lemma quoteLabel_escape: "quoteLabel v = dquote # concat (map escape_char v) @ [dquote]"
proof -
  have "replace_char dquote [backslash, dquote] (replace_char newline [backslash, CHR ''n''] (replace_char backslash [backslash, backslash] v))
      = concat (map escape_char v)"
    by (induction v) (auto simp: replace_char_append escape_char_def)
  then show ?thesis by (simp add: quoteLabel_def Let_def)
qed

text \<open>A reader of quoted labels: the text up to the closing quote, and what follows it.\<close>

fun read_escaped :: "string \<Rightarrow> (string \<times> string) option" where
  "read_escaped [] = None"
| "read_escaped (c # s) =
     (if c = dquote then Some ([], s)
      else if c = backslash then (case s of [] \<Rightarrow> None
        | d # s' \<Rightarrow> map_option (\<lambda>(v, rest). ((if d = CHR ''n'' then newline else d) # v, rest)) (read_escaped s'))
      else map_option (\<lambda>(v, rest). (c # v, rest)) (read_escaped s))"

definition read_label :: "string \<Rightarrow> (string \<times> string) option" where
  "read_label s = (case s of c # rest \<Rightarrow> if c = dquote then read_escaped rest else None | [] \<Rightarrow> None)"

text \<open>
  C37. A label is quoted so that a reader of the exposition format gets back the label and what follows
  it, whatever bytes the label holds; the quoted form has no newline.
\<close>

theorem quoteLabel_roundtrip:
  "read_label (quoteLabel v @ rest) = Some (v, rest) \<and> newline \<notin> set (quoteLabel v)"
proof
  have "read_escaped (concat (map escape_char v) @ dquote # rest) = Some (v, rest)"
    by (induction v) (auto simp: escape_char_def)
  then show "read_label (quoteLabel v @ rest) = Some (v, rest)"
    by (simp add: quoteLabel_escape read_label_def)
  show "newline \<notin> set (quoteLabel v)"
    by (auto simp: quoteLabel_escape escape_char_def split: if_splits)
qed

section \<open>One line for each sample\<close>

definition one_line :: "string \<Rightarrow> bool" where
  "one_line l \<longleftrightarrow> newline \<notin> set l"

lemma one_line_simps [simp]:
  "one_line []" "one_line (c # l) \<longleftrightarrow> c \<noteq> newline \<and> one_line l" "one_line (a @ b) \<longleftrightarrow> one_line a \<and> one_line b"
  by (auto simp: one_line_def)

lemma one_line_quoteLabel [simp]: "one_line (quoteLabel v)"
  by (auto simp: one_line_def quoteLabel_escape escape_char_def split: if_splits)

lemma one_line_show [simp]: "one_line (show_nat n)" "one_line (show_count w)" "one_line (show_int k)"
  using show_nat_bytes[of newline] by (auto simp: one_line_def show_count_def show_int_def)

lemma one_line_plain_quote [simp]: "one_line (plain_quote v) \<longleftrightarrow> one_line v"
  by (simp add: plain_quote_def)

lemma metric_line_simps [simp]:
  "one_line (http_line m k)" "one_line (evaluation_line m e)" "one_line (finding_line m c)" "one_line (failure_line m f)"
  by (simp_all add: http_line_def evaluation_line_def finding_line_def failure_line_def case_prod_beta)

lemma histogram_lines_one_line:
  "(\<And>x. one_line (fmt x)) \<Longrightarrow> one_line name \<Longrightarrow> one_line label \<Longrightarrow> list_all one_line (histogram_lines fmt name label key h)"
  by (auto simp: histogram_lines_def list_all_iff Let_def)

lemma writeHistograms_one_line:
  "(\<And>x. one_line (fmt x)) \<Longrightarrow> one_line name \<Longrightarrow> one_line what \<Longrightarrow> one_line label \<Longrightarrow>
     list_all one_line (writeHistograms fmt name what label coll)"
  using histogram_lines_one_line[of fmt name label]
  by (simp add: writeHistograms_def metric_help_def list_all_concat_iff list_all_iff)

lemma metric_lines_one_line: "(\<And>x. one_line (fmt x)) \<Longrightarrow> list_all one_line (metric_lines fmt m)"
  unfolding metric_lines_def list_all_append
  by (intro conjI writeHistograms_one_line) (simp_all add: metric_help_def list_all_iff)

lemma count_newlines:
  "list_all one_line ls \<Longrightarrow> length (filter (\<lambda>c. c = newline) (concat (map (\<lambda>l. l @ [newline]) ls))) = length ls"
  by (induction ls) (auto simp: one_line_def filter_empty_conv)

definition sample_count :: "metrics \<Rightarrow> nat" where
  "sample_count m = length (mt_http m) + length (mt_evaluations m) + length (mt_findings m) + length (mt_failures m)"

lemma histogram_lines_length:
  "length (hg_buckets h) = length latencyBuckets \<Longrightarrow> length (histogram_lines fmt name label key h) = 15"
  by (simp add: histogram_lines_def Let_def latencyBuckets_def)

definition full_histograms :: "(string \<times> histogram) list \<Rightarrow> bool" where
  "full_histograms coll \<longleftrightarrow> list_all (\<lambda>kh. length (hg_buckets (snd kh)) = length latencyBuckets) coll"

lemma histogram_at_full: "full_histograms coll \<Longrightarrow> length (hg_buckets (histogram_at coll k)) = length latencyBuckets"
  by (auto simp: histogram_at_def full_histograms_def list_all_iff empty_histogram_def dest!: map_of_SomeD split: option.split)

lemma writeHistograms_length:
  assumes "full_histograms coll"
  shows "length (writeHistograms fmt name what label coll) = 2 + 15 * length coll"
proof -
  have "length (concat (map (\<lambda>key. histogram_lines fmt name label key (histogram_at coll key)) ks)) = 15 * length ks" for ks
    by (induction ks) (simp_all add: histogram_lines_length histogram_at_full[OF assms])
  then show ?thesis by (simp add: writeHistograms_def metric_help_def sortedStringKeys_def)
qed

text \<open>
  No label can forge a line of the metrics page: the number of newlines written is exactly two for
  each of the six families, one for each counter, and fifteen for each histogram.
\<close>

theorem writeMetrics_lines:
  assumes "\<And>x. newline \<notin> set (fmt x)"
    and "full_histograms (mt_evaluation_latency m)" "full_histograms (mt_detector_latency m)"
  shows "length (filter (\<lambda>c. c = newline) (writeMetrics fmt m)) =
    12 + sample_count m + 15 * (length (mt_evaluation_latency m) + length (mt_detector_latency m))"
proof -
  have "list_all one_line (metric_lines fmt m)"
    by (rule metric_lines_one_line) (simp add: one_line_def assms(1))
  then have "length (filter (\<lambda>c. c = newline) (writeMetrics fmt m)) = length (metric_lines fmt m)"
    unfolding writeMetrics_def by (rule count_newlines)
  also have "\<dots> = 12 + sample_count m + 15 * (length (mt_evaluation_latency m) + length (mt_detector_latency m))"
    by (simp add: metric_lines_def writeHistograms_length assms(2,3) metric_help_def sample_count_def
        sortedHTTPKeys_def sortedEvaluationKeys_def sortedStringKeys_def sortedFailureKeys_def)
  finally show ?thesis .
qed

text \<open>The service keeps its histograms full.\<close>

lemma observe_value_full: "length (hg_buckets h) = length latencyBuckets \<Longrightarrow> length (hg_buckets (observe_value v h)) = length latencyBuckets"
  by (simp add: observe_value_def)

lemma observeHistogram_full: "full_histograms coll \<Longrightarrow> full_histograms (observeHistogram coll k v)"
proof -
  assume full: "full_histograms coll"
  have "length (hg_buckets (observe_value v (histogram_at coll k))) = length latencyBuckets"
    using histogram_at_full[OF full] by (rule observe_value_full)
  moreover have "set (AList.update k x coll) \<subseteq> insert (k, x) (set coll)" for x
    by (induction coll) auto
  ultimately show ?thesis
    using full unfolding full_histograms_def observeHistogram_def histogram_at_def[symmetric] list_all_iff by fastforce
qed

lemma RecordEvaluation_full:
  assumes "full_histograms (mt_evaluation_latency m)" "full_histograms (mt_detector_latency m)"
  shows "full_histograms (mt_evaluation_latency (RecordEvaluation m x))" "full_histograms (mt_detector_latency (RecordEvaluation m x))"
proof -
  show "full_histograms (mt_evaluation_latency (RecordEvaluation m x))"
    using observeHistogram_full assms(1) by (simp add: RecordEvaluation_def)
  have "full_histograms coll \<Longrightarrow> full_histograms (fold (\<lambda>(d, ms) coll. observeHistogram coll (boundedLabel d ''unknown'') (milli_seconds ms)) ts coll)" for ts coll
    by (induction ts arbitrary: coll) (auto intro: observeHistogram_full)
  with assms(2) show "full_histograms (mt_detector_latency (RecordEvaluation m x))" by (simp add: RecordEvaluation_def)
qed

theorem writeMetrics_lines_witness:
  "length (filter (\<lambda>c. c = newline) (writeMetrics (\<lambda>_. ''0'') (no_metrics\<lparr>mt_findings := [([newline], 3)]\<rparr>))) = 13"
proof -
  let ?m = "no_metrics\<lparr>mt_findings := [([newline], 3)]\<rparr>"
  have "full_histograms (mt_evaluation_latency ?m)" "full_histograms (mt_detector_latency ?m)"
    by (simp_all add: no_metrics_def full_histograms_def)
  from writeMetrics_lines[of "\<lambda>_. ''0''", OF _ this] show ?thesis by (simp add: sample_count_def no_metrics_def)
qed

end
