(* ===== verification/GR_Observability.thy ===== *)
theory GR_Observability
  imports GR_Exposition GR_Tracing
begin

text \<open>
  Trace contexts and audit records, from \<open>internal/observability/observability.go\<close>: parsing and
  rendering of \<open>traceparent\<close>, \<open>ContinueTrace\<close>, \<open>StartSpan\<close> and the span it returns, random
  identifiers, and the attributes of an audit record. The value a Go context carries under the trace
  key is an option; random bytes are an argument (\<open>None\<close>: the system has none, and the code falls
  back to the process-wide counter \<open>fallbackID\<close>). A log record is the list of its attributes.
\<close>

section \<open>Identifiers\<close>

text \<open>\<open>%x\<close> of a number, and \<open>%0*x\<close>.\<close>

fun show_hex :: "nat \<Rightarrow> string" where
  "show_hex n = (if n < 16 then [hex_char n] else show_hex (n div 16) @ [hex_char (n mod 16)])"

declare show_hex.simps [simp del]

definition pad_hex :: "nat \<Rightarrow> nat \<Rightarrow> string" where
  "pad_hex width n = replicate (width - length (show_hex n)) (CHR ''0'') @ show_hex n"

text \<open>The identifier and the counter afterwards.\<close>

definition randomHex :: "nat \<Rightarrow> string option \<Rightarrow> 64 word \<Rightarrow> string \<times> 64 word" where
  "randomHex n random fallback = (case random of Some bs \<Rightarrow> (hex_encode (take n bs), fallback)
   | None \<Rightarrow> (pad_hex (n * 2) (unat (fallback + 1)), fallback + 1))"

definition IdentifierDigest :: "(string \<Rightarrow> string) \<Rightarrow> string \<Rightarrow> string" where
  "IdentifierDigest sha v = (if v = '''' then '''' else ''sha256:'' @ hex_encode (sha v))"

section \<open>\<open>traceparent\<close>\<close>

record trace_context =
  tc_traceID :: string
  tc_spanID :: string
  tc_flags :: string

definition lower_hex_rune :: "nat \<Rightarrow> bool" where
  "lower_hex_rune r \<longleftrightarrow> 48 \<le> r \<and> r \<le> 57 \<or> 97 \<le> r \<and> r \<le> 102"

definition validLowerHex :: "string \<Rightarrow> bool" where
  "validLowerHex v \<longleftrightarrow> list_all (\<lambda>(r, bs). lower_hex_rune r) (rune_segs v)"

definition allZero :: "string \<Rightarrow> bool" where
  "allZero v \<longleftrightarrow> list_all (\<lambda>c. c = CHR ''0'') v"

definition slice :: "nat \<Rightarrow> nat \<Rightarrow> string \<Rightarrow> string" where
  "slice i j s = take (j - i) (drop i s)"

definition parseTraceparent :: "string \<Rightarrow> trace_context option" where
  "parseTraceparent v =
     (if length v \<noteq> 55 \<or> v ! 2 \<noteq> CHR ''-'' \<or> v ! 35 \<noteq> CHR ''-'' \<or> v ! 52 \<noteq> CHR ''-'' \<or> take 2 v \<noteq> ''00'' then None
      else let traceID = slice 3 35 v; spanID = slice 36 52 v; flags = slice 53 55 v in
        if \<not> validLowerHex traceID \<or> \<not> validLowerHex spanID \<or> \<not> validLowerHex flags \<or> allZero traceID \<or> allZero spanID
        then None else Some \<lparr>tc_traceID = traceID, tc_spanID = spanID, tc_flags = flags\<rparr>)"

definition render_trace :: "trace_context \<Rightarrow> string" where
  "render_trace t = ''00-'' @ tc_traceID t @ ''-'' @ tc_spanID t @ ''-'' @ tc_flags t"

text \<open>\<open>Service.Traceparent\<close> of the trace a context carries.\<close>

definition Traceparent :: "trace_context option \<Rightarrow> string" where
  "Traceparent tr = (case tr of None \<Rightarrow> ''''
   | Some t \<Rightarrow> if tc_traceID t = '''' \<or> tc_spanID t = '''' then '''' else render_trace t)"

definition TraceID :: "trace_context option \<Rightarrow> string" where
  "TraceID tr = (case tr of None \<Rightarrow> '''' | Some t \<Rightarrow> tc_traceID t)"

text \<open>\<open>Service.ContinueTrace\<close>; \<open>fresh\<close> is the identifier drawn when the header does not parse.\<close>

definition ContinueTrace :: "string \<Rightarrow> string \<Rightarrow> trace_context" where
  "ContinueTrace header fresh = (case parseTraceparent header of Some t \<Rightarrow> t
   | None \<Rightarrow> \<lparr>tc_traceID = fresh, tc_spanID = '''', tc_flags = ''01''\<rparr>)"

section \<open>Spans\<close>

record log_span =
  ls_name :: string
  ls_trace :: trace_context
  ls_parentID :: string
  ls_attrs :: span_attributes
  ls_started :: int
  ls_ended :: bool

definition StartSpan :: "trace_context option \<Rightarrow> string \<Rightarrow> string \<Rightarrow> int \<Rightarrow> string \<Rightarrow> span_attributes \<Rightarrow> trace_context \<times> log_span" where
  "StartSpan tr freshTrace freshSpan now name attrs =
     (let parent = (case tr of Some t \<Rightarrow> if tc_traceID t = '''' then \<lparr>tc_traceID = freshTrace, tc_spanID = '''', tc_flags = ''01''\<rparr> else t
          | None \<Rightarrow> \<lparr>tc_traceID = freshTrace, tc_spanID = '''', tc_flags = ''01''\<rparr>);
          current = \<lparr>tc_traceID = tc_traceID parent, tc_spanID = freshSpan, tc_flags = tc_flags parent\<rparr> in
      (current, \<lparr>ls_name = name, ls_trace = current, ls_parentID = tc_spanID parent, ls_attrs = attrs, ls_started = now, ls_ended = False\<rparr>))"

datatype log_value =
    LString string
  | LInt int
  | LStrings "string list"
  | LFindings "(string \<times> string \<times> rat \<times> string) list"
  | LFailures "failure_summary list"
  | LTimings "(string \<times> int) list"

type_synonym log_attrs = "(string \<times> log_value) list"

text \<open>\<open>attr.Value.String()\<close> is empty only for an empty string, the only kind of value it is used on.\<close>

definition appendNonEmpty :: "log_attrs \<Rightarrow> log_attrs \<Rightarrow> log_attrs" where
  "appendNonEmpty target attrs = target @ filter (\<lambda>(k, v). v \<noteq> LString '''') attrs"

definition span_log :: "log_span \<Rightarrow> int \<Rightarrow> string \<Rightarrow> log_attrs" where
  "span_log s now status = appendNonEmpty
     [(''event_kind'', LString ''trace''), (''span'', LString (ls_name s)), (''trace_id'', LString (tc_traceID (ls_trace s))),
      (''span_id'', LString (tc_spanID (ls_trace s))), (''status'', LString (boundedLabel status ''unset'')),
      (''duration_us'', LInt (go_div (now - ls_started s) microsecond))]
     [(''parent_span_id'', LString (ls_parentID s)), (''operation'', LString (sa_Operation (ls_attrs s))),
      (''stage'', LString (sa_Stage (ls_attrs s))), (''policy_id'', LString (sa_PolicyID (ls_attrs s))),
      (''detector_id'', LString (sa_DetectorID (ls_attrs s)))]"

text \<open>\<open>logSpan.End\<close>: the records logged, and the span afterwards.\<close>

definition EndSpan :: "log_span \<Rightarrow> int \<Rightarrow> string \<Rightarrow> log_attrs list \<times> log_span" where
  "EndSpan s now status = (if ls_ended s then ([], s) else ([span_log s now status], s\<lparr>ls_ended := True\<rparr>))"

section \<open>Audit records\<close>

definition AuditSchemaVersion :: string where
  "AuditSchemaVersion = ''thinkpixelgr.audit/v1''"

record finding_summary =
  fd_DetectorID :: string
  fd_Category :: string
  fd_Confidence :: rat
  fd_Severity :: string

text \<open>A nil slice or map, which is left out of the record, is \<open>None\<close>.\<close>

record audit_event =
  ae_Type :: string
  ae_Outcome :: string
  ae_ErrorCode :: string
  ae_EvaluationID :: string
  ae_RequestIDHash :: string
  ae_TenantID :: string
  ae_PrincipalID :: string
  ae_Stage :: string
  ae_Action :: string
  ae_AppliedPolicies :: "string list option"
  ae_Findings :: "finding_summary list option"
  ae_Failures :: "failure_summary list option"
  ae_TotalMS :: int
  ae_PolicyTimingsMS :: "(string \<times> int) list option"
  ae_DetectorTimingsMS :: "(string \<times> int) list option"

definition summary_tuple :: "finding_summary \<Rightarrow> string \<times> string \<times> rat \<times> string" where
  "summary_tuple f = (fd_DetectorID f, fd_Category f, fd_Confidence f, fd_Severity f)"

definition optional_attr :: "string \<Rightarrow> log_value option \<Rightarrow> log_attrs" where
  "optional_attr k v = (case v of None \<Rightarrow> [] | Some x \<Rightarrow> [(k, x)])"

text \<open>\<open>Service.RecordAudit\<close>: the attributes of the record logged.\<close>

definition RecordAudit :: "trace_context option \<Rightarrow> audit_event \<Rightarrow> log_attrs" where
  "RecordAudit tr e = appendNonEmpty
     [(''event_kind'', LString ''audit''), (''schema'', LString AuditSchemaVersion),
      (''event_type'', LString (ae_Type e)), (''outcome'', LString (ae_Outcome e))]
     [(''trace_id'', LString (TraceID tr)), (''error_code'', LString (ae_ErrorCode e)),
      (''evaluation_id'', LString (ae_EvaluationID e)), (''request_id_hash'', LString (ae_RequestIDHash e)),
      (''tenant_id'', LString (ae_TenantID e)), (''principal_id'', LString (ae_PrincipalID e)),
      (''stage'', LString (ae_Stage e)), (''action'', LString (ae_Action e))] @
     optional_attr ''applied_policies'' (map_option LStrings (ae_AppliedPolicies e)) @
     optional_attr ''findings'' (map_option (LFindings \<circ> map summary_tuple) (ae_Findings e)) @
     optional_attr ''detector_failures'' (map_option LFailures (ae_Failures e)) @
     (if 0 \<le> ae_TotalMS e then [(''total_ms'', LInt (ae_TotalMS e))] else []) @
     optional_attr ''policy_timings_ms'' (map_option LTimings (ae_PolicyTimingsMS e)) @
     optional_attr ''detector_timings_ms'' (map_option LTimings (ae_DetectorTimingsMS e))"

section \<open>The header round trip\<close>

definition valid_trace :: "trace_context \<Rightarrow> bool" where [wf_defs]:
  "valid_trace t \<longleftrightarrow> length (tc_traceID t) = 32 \<and> length (tc_spanID t) = 16 \<and> length (tc_flags t) = 2 \<and>
     validLowerHex (tc_traceID t) \<and> validLowerHex (tc_spanID t) \<and> validLowerHex (tc_flags t) \<and>
     \<not> allZero (tc_traceID t) \<and> \<not> allZero (tc_spanID t)"

lemma split_header:
  assumes "length v = 55"
  shows "v = take 2 v @ v ! 2 # slice 3 35 v @ v ! 35 # slice 36 52 v @ v ! 52 # slice 53 55 v"
proof -
  have d: "drop i v = take k (drop i v) @ drop (i + k) v" for i k
    by (metis append_take_drop_id drop_drop add.commute)
  have c: "i < 55 \<Longrightarrow> drop i v = v ! i # drop (Suc i) v" for i
    using assms by (simp add: Cons_nth_drop_Suc)
  have "v = take 2 v @ drop 2 v" by simp
  also have "drop 2 v = v ! 2 # slice 3 35 v @ drop 35 v"
    using c[of 2] d[of 3 32] by (simp add: slice_def)
  also have "drop 35 v = v ! 35 # slice 36 52 v @ drop 52 v"
    using c[of 35] d[of 36 16] by (simp add: slice_def)
  also have "drop 52 v = v ! 52 # slice 53 55 v"
    using c[of 52] assms by (simp add: slice_def)
  finally show ?thesis .
qed

lemma slice_parts:
  assumes "length a = 32" "length b = 16" "length c = 2"
  defines "v \<equiv> ''00-'' @ a @ ''-'' @ b @ ''-'' @ c"
  shows "length v = 55" "take 2 v = ''00''" "v ! 2 = CHR ''-''" "v ! 35 = CHR ''-''" "v ! 52 = CHR ''-''"
    "slice 3 35 v = a" "slice 36 52 v = b" "slice 53 55 v = c"
  using assms by (simp_all add: v_def slice_def nth_append take_Cons' drop_Cons' nth_Cons')

lemma parse_facts:
  assumes "parseTraceparent v = Some t"
  shows "length v = 55" "v ! 2 = CHR ''-''" "v ! 35 = CHR ''-''" "v ! 52 = CHR ''-''" "take 2 v = ''00''"
    "t = \<lparr>tc_traceID = slice 3 35 v, tc_spanID = slice 36 52 v, tc_flags = slice 53 55 v\<rparr>"
    "validLowerHex (slice 3 35 v)" "validLowerHex (slice 36 52 v)" "validLowerHex (slice 53 55 v)"
    "\<not> allZero (slice 3 35 v)" "\<not> allZero (slice 36 52 v)"
  using assms by (auto simp: parseTraceparent_def Let_def split: if_splits)

lemma trace_valid: "parseTraceparent v = Some t \<Longrightarrow> valid_trace t"
  using parse_facts[of v t] by (simp add: valid_trace_def slice_def)

lemma trace_ids: "valid_trace t \<Longrightarrow> tc_traceID t \<noteq> '''' \<and> tc_spanID t \<noteq> ''''"
  by (auto simp: valid_trace_def)

lemma render_parsed: "parseTraceparent v = Some t \<Longrightarrow> Traceparent (Some t) = v"
proof -
  assume p: "parseTraceparent v = Some t"
  note f = parse_facts[OF p]
  have "render_trace t = v" using split_header[OF f(1)] unfolding render_trace_def f(2-5) by (simp add: f(6))
  with trace_ids[OF trace_valid[OF p]] show ?thesis by (simp add: Traceparent_def)
qed

lemma parse_valid:
  assumes v: "valid_trace t"
  shows "parseTraceparent (Traceparent (Some t)) = Some t"
proof -
  have "length (tc_traceID t) = 32" "length (tc_spanID t) = 16" "length (tc_flags t) = 2"
    using v by (simp_all add: valid_trace_def)
  note parts = slice_parts[OF this]
  have "Traceparent (Some t) = ''00-'' @ tc_traceID t @ ''-'' @ tc_spanID t @ ''-'' @ tc_flags t"
    using trace_ids[OF v] by (simp add: Traceparent_def render_trace_def)
  then show ?thesis unfolding parseTraceparent_def Let_def by (simp only: parts) (use v in \<open>simp add: valid_trace_def\<close>)
qed

text \<open>
  C38. Parsing and rendering of \<open>traceparent\<close> are inverse: what parses renders back to the header it
  came from and is a valid trace, and every valid trace renders to a header that parses to it.
\<close>

theorem traceparent_roundtrip:
  "(parseTraceparent v = Some t \<longrightarrow> valid_trace t \<and> Traceparent (Some t) = v) \<and>
   (valid_trace t \<longrightarrow> parseTraceparent (Traceparent (Some t)) = Some t)"
  using trace_valid render_parsed parse_valid by blast

theorem traceparent_roundtrip_witness:
  "parseTraceparent (Traceparent (Some \<lparr>tc_traceID = replicate 32 (CHR ''a''), tc_spanID = replicate 16 (CHR ''b''), tc_flags = ''01''\<rparr>)) =
     Some \<lparr>tc_traceID = replicate 32 (CHR ''a''), tc_spanID = replicate 16 (CHR ''b''), tc_flags = ''01''\<rparr>"
proof -
  have "valid_trace \<lparr>tc_traceID = replicate 32 (CHR ''a''), tc_spanID = replicate 16 (CHR ''b''), tc_flags = ''01''\<rparr>"
    by (simp add: valid_trace_def validLowerHex_def allZero_def rune_segs_ascii_string ascii_string_def lower_hex_rune_def list_all_iff
        numeral_eq_Suc)
  then show ?thesis using traceparent_roundtrip by blast
qed

section \<open>Random identifiers are valid\<close>

lemma lower_hex_char: "d < 16 \<Longrightarrow> lower_hex_rune (byte (hex_char d)) \<and> byte (hex_char d) < 128"
  by (auto simp: lower_hex_rune_def hex_char_def)

lemma validLowerHex_chars:
  "validLowerHex v \<longleftrightarrow> list_all (\<lambda>c. lower_hex_rune (byte c)) v" if "ascii_string v"
  by (simp add: validLowerHex_def rune_segs_ascii_string[OF that] list_all_iff)

lemma hex_char_mod: "\<exists>d < 16. hex_char (n mod 16) = hex_char d"
  by (rule exI[of _ "n mod 16"]) simp

lemma hex_digits_ok: "c \<in> set (hex_digits k n) \<Longrightarrow> \<exists>d < 16. c = hex_char d"
  by (induction k arbitrary: n) (auto intro: hex_char_mod)

lemma length_hex_digits [simp]: "length (hex_digits k n) = k"
  by (induction k arbitrary: n) auto

lemma show_hex_ok: "c \<in> set (show_hex n) \<Longrightarrow> \<exists>d < 16. c = hex_char d"
proof (induction n rule: show_hex.induct)
  case (1 n)
  then show ?case by (cases "n < 16") (auto simp: show_hex.simps[of n] intro: hex_char_mod)
qed

lemma length_show_hex: "0 < k \<Longrightarrow> n < 16 ^ k \<Longrightarrow> length (show_hex n) \<le> k"
proof (induction k arbitrary: n)
  case (Suc k)
  show ?case
  proof (cases "n < 16")
    case True
    then show ?thesis by (simp add: show_hex.simps[of n])
  next
    case False
    then have "0 < k" using Suc.prems by (cases k) auto
    moreover have "n div 16 < 16 ^ k" using Suc.prems(2) by (simp add: less_mult_imp_div_less mult.commute)
    ultimately show ?thesis using Suc.IH[of "n div 16"] False by (simp add: show_hex.simps[of n])
  qed
qed simp

lemma hex_chars_valid:
  assumes "\<And>c. c \<in> set v \<Longrightarrow> \<exists>d < 16. c = hex_char d"
  shows "validLowerHex v"
proof -
  have "lower_hex_rune (byte c) \<and> byte c < 128" if "c \<in> set v" for c
    using assms[OF that] lower_hex_char by blast
  then show ?thesis by (simp add: validLowerHex_chars ascii_string_def list_all_iff)
qed

lemma length_concat_pairs: "(\<And>x. length (f x) = k) \<Longrightarrow> length (concat (map f xs)) = k * length xs"
  by (induction xs) auto

text \<open>
  A random identifier of eight or more bytes is lower-case hexadecimal of exactly twice that
  length, also when the system has no randomness and the counter is used, whatever its value.
\<close>

theorem randomHex_valid:
  assumes "8 \<le> n" "\<And>bs. random = Some bs \<Longrightarrow> n \<le> length bs"
  shows "length (fst (randomHex n random fallback)) = 2 * n \<and> validLowerHex (fst (randomHex n random fallback))"
proof (cases random)
  case (Some bs)
  have "validLowerHex (hex_encode (take n bs))"
    by (rule hex_chars_valid) (auto simp: hex_encode_def dest: hex_digits_ok)
  with Some assms(2) show ?thesis
    by (simp add: randomHex_def hex_encode_def length_concat_pairs[of _ 2] min_def)
next
  case None
  let ?k = "unat (fallback + 1)"
  have "?k < 16 ^ 16" using unsigned_less[of "fallback + 1"] by simp
  then have "length (show_hex ?k) \<le> 16" by (intro length_show_hex) simp_all
  moreover have "validLowerHex (pad_hex (n * 2) ?k)"
  proof (rule hex_chars_valid)
    fix c assume "c \<in> set (pad_hex (n * 2) ?k)"
    then have "c = CHR ''0'' \<or> c \<in> set (show_hex ?k)" by (auto simp: pad_hex_def)
    moreover have "CHR ''0'' = hex_char 0" by (simp add: hex_char_def char_eval)
    ultimately show "\<exists>d < 16. c = hex_char d" using show_hex_ok by (metis zero_less_numeral)
  qed
  ultimately show ?thesis using None assms(1) by (simp add: randomHex_def pad_hex_def)
qed

theorem randomHex_valid_witness: "length (fst (randomHex 8 None (- 1))) = 16"
  using randomHex_valid[of 8 None] by simp

text \<open>A span started under a continued trace keeps the caller's trace identifier and flags.\<close>

lemma start_continued:
  assumes "parseTraceparent header = Some t" "length freshSpan = 16" "validLowerHex freshSpan" "\<not> allZero freshSpan"
  shows "parseTraceparent (Traceparent (Some (fst (StartSpan (Some (ContinueTrace header fresh)) fresh' freshSpan now name attrs)))) =
      Some \<lparr>tc_traceID = tc_traceID t, tc_spanID = freshSpan, tc_flags = tc_flags t\<rparr> \<and>
    ls_parentID (snd (StartSpan (Some (ContinueTrace header fresh)) fresh' freshSpan now name attrs)) = tc_spanID t"
proof -
  have t: "valid_trace t" using trace_valid[OF assms(1)] .
  then have "tc_traceID t \<noteq> ''''" by (auto simp: valid_trace_def)
  moreover have "valid_trace \<lparr>tc_traceID = tc_traceID t, tc_spanID = freshSpan, tc_flags = tc_flags t\<rparr>"
    using t assms(2-4) by (simp add: valid_trace_def)
  note parse_valid[OF this]
  ultimately show ?thesis using assms(1) by (simp add: StartSpan_def ContinueTrace_def Let_def)
qed

section \<open>Spans and audit records\<close>

text \<open>
  A span is logged once: however often it is ended, only the first end writes a record, and that
  record carries the identifiers of its trace.
\<close>

theorem span_logged_once:
  assumes "(tr', sp) = StartSpan tr freshTrace freshSpan now name attrs"
  shows "concat (map fst (rev (fst (foldl (\<lambda>(outs, s) (t, status). let r = EndSpan s t status in (r # outs, snd r)) ([], sp) ends)))) =
    (case ends of [] \<Rightarrow> [] | (t, status) # _ \<Rightarrow> [span_log sp t status])"
proof -
  let ?step = "\<lambda>(outs, s) (t, status). let r = EndSpan s t status in (r # outs, snd r)"
  have silent: "ls_ended s \<Longrightarrow> concat (map fst (rev (fst (foldl ?step (outs, s) es)))) = concat (map fst (rev outs))" for outs s es
    by (induction es arbitrary: outs) (auto simp: EndSpan_def Let_def)
  have fresh: "\<not> ls_ended sp" using assms by (auto simp: StartSpan_def Let_def)
  show ?thesis
  proof (cases ends)
    case (Cons e es)
    obtain t status where e: "e = (t, status)" by (cases e)
    have "EndSpan sp t status = ([span_log sp t status], sp\<lparr>ls_ended := True\<rparr>)" using fresh by (simp add: EndSpan_def)
    with silent[of "sp\<lparr>ls_ended := True\<rparr>"] show ?thesis by (simp add: Cons e)
  qed simp
qed

text \<open>Ending twice, as a handler and a deferred call may, logs one record.\<close>

theorem span_logged_once_witness:
  "concat (map fst (rev (fst (foldl (\<lambda>(outs, s) (t, status). let r = EndSpan s t status in (r # outs, snd r))
      ([], snd (StartSpan None ''t'' ''s'' 0 ''audit.emit'' \<lparr>sa_Operation = '''', sa_Stage = '''', sa_PolicyID = '''', sa_DetectorID = ''''\<rparr>))
      [(5000, ''ok''), (9000, ''error'')])))) =
   [span_log (snd (StartSpan None ''t'' ''s'' 0 ''audit.emit'' \<lparr>sa_Operation = '''', sa_Stage = '''', sa_PolicyID = '''', sa_DetectorID = ''''\<rparr>)) 5000 ''ok'']"
  using span_logged_once[OF prod.collapse, of None "''t''" "''s''" 0 "''audit.emit''"
      "\<lparr>sa_Operation = '''', sa_Stage = '''', sa_PolicyID = '''', sa_DetectorID = ''''\<rparr>" "[(5000, ''ok''), (9000, ''error'')]"] by simp

end
