(* ===== verification/GR_Mux.thy ===== *)
theory GR_Mux
  imports GR_Strings
begin

text \<open>
  The routes that \<open>internal/api/http/handler.go\<close> registers and how \<open>net/http.ServeMux\<close> (Go 1.24)
  dispatches a request over them: a pattern is a method and a literal path; \<open>GET\<close> also serves
  \<open>HEAD\<close>; the escaped path is matched segment by segment, each one unescaped; a path that is not
  clean is redirected; a path known under other methods only is answered 405.
\<close>

section \<open>Routes\<close>

datatype endpoint = Live | Ready | Policies | Evaluations | Metrics

fun endpoint_method :: "endpoint \<Rightarrow> string" where
  "endpoint_method Evaluations = ''POST''"
| "endpoint_method _ = ''GET''"

fun endpoint_path :: "endpoint \<Rightarrow> string" where
  "endpoint_path Live = ''/health/live''"
| "endpoint_path Ready = ''/health/ready''"
| "endpoint_path Policies = ''/v1/policies''"
| "endpoint_path Evaluations = ''/v1/evaluations''"
| "endpoint_path Metrics = ''/metrics''"

definition routes :: "endpoint list" where
  "routes = [Live, Ready, Policies, Evaluations, Metrics]"

text \<open>\<open>metricRoute\<close> of the decoded path.\<close>

definition metricRoute :: "string \<Rightarrow> string" where
  "metricRoute path = (if path \<in> set [''/health/live'', ''/health/ready'', ''/v1/policies'', ''/v1/evaluations'', ''/metrics'']
     then path else ''unmatched'')"

section \<open>Paths\<close>

text \<open>\<open>url.PathUnescape\<close>; \<open>None\<close> is its error.\<close>

definition hex_val :: "char \<Rightarrow> nat option" where
  "hex_val c = (let b = byte c in
     if 48 \<le> b \<and> b \<le> 57 then Some (b - 48)
     else if 97 \<le> b \<and> b \<le> 102 then Some (b - 87)
     else if 65 \<le> b \<and> b \<le> 70 then Some (b - 55) else None)"

fun unescape :: "string \<Rightarrow> string option" where
  "unescape [] = Some []"
| "unescape (c # s) = (if c = CHR ''%'' then
     (case s of a # b # rest \<Rightarrow> (case (hex_val a, hex_val b) of
         (Some x, Some y) \<Rightarrow> map_option (\<lambda>r. char_of (16 * x + y) # r) (unescape rest)
       | _ \<Rightarrow> None)
     | _ \<Rightarrow> None)
     else map_option (\<lambda>r. c # r) (unescape s))"

definition segment_of :: "string \<Rightarrow> string" where
  "segment_of s = (case unescape s of Some t \<Rightarrow> t | None \<Rightarrow> s)"

text \<open>The segments the routing tree follows: the first byte of the rest is dropped, as it is a slash.\<close>

function path_segments :: "string \<Rightarrow> string list" where
  "path_segments [] = []"
| "path_segments (c # s) = (if c # s = ''/'' then [''/'']
     else segment_of (takeWhile (\<lambda>x. x \<noteq> CHR ''/'') s) # path_segments (dropWhile (\<lambda>x. x \<noteq> CHR ''/'') s))"
  by pat_completeness auto
termination
  by (relation "measure length") (auto simp: le_imp_less_Suc length_dropWhile_le)

declare path_segments.simps(2) [simp del]

text \<open>\<open>path.Clean\<close> of a rooted path, and \<open>cleanPath\<close>.\<close>

definition push_segment :: "string list \<Rightarrow> string \<Rightarrow> string list" where
  "push_segment done' s = (if s = '''' \<or> s = ''.'' then done' else if s = ''..'' then butlast done' else done' @ [s])"

definition Clean :: "string \<Rightarrow> string" where
  "Clean p = (let segs = foldl push_segment [] (split_on (CHR ''/'') p) in
     if segs = [] then ''/'' else concat (map (\<lambda>s. CHR ''/'' # s) segs))"

definition cleanPath :: "string \<Rightarrow> string" where
  "cleanPath p = (if p = '''' then ''/'' else
     let p' = (if hd p = CHR ''/'' then p else CHR ''/'' # p); np = Clean p' in
     if last p' = CHR ''/'' \<and> np \<noteq> ''/'' then np @ ''/'' else np)"

section \<open>Dispatch\<close>

definition path_matches :: "endpoint \<Rightarrow> string \<Rightarrow> bool" where
  "path_matches e path \<longleftrightarrow> path_segments path = path_segments (endpoint_path e)"

definition method_matches :: "endpoint \<Rightarrow> string \<Rightarrow> bool" where
  "method_matches e verb \<longleftrightarrow> verb = endpoint_method e \<or> verb = ''HEAD'' \<and> endpoint_method e = ''GET''"

definition match_route :: "string \<Rightarrow> string \<Rightarrow> endpoint option" where
  "match_route verb path = find (\<lambda>e. method_matches e verb \<and> path_matches e path) routes"

text \<open>\<open>matchingMethods\<close>: a path is tried with a trailing slash too.\<close>

definition allowed_methods :: "string \<Rightarrow> string list" where
  "allowed_methods path = (let known = (\<lambda>e. path_matches e path \<or> (path = '''' \<or> last path \<noteq> CHR ''/'') \<and> path_matches e (path @ ''/''));
     ms = map endpoint_method (filter known routes) in
     sort (remdups (ms @ (if ''GET'' \<in> set ms then [''HEAD''] else []))))"

datatype routed = Serve endpoint | MovedTo string | MethodNotAllowed "string list" | NotFound | BadRequestURI

definition dispatch :: "string \<Rightarrow> string \<Rightarrow> string \<Rightarrow> routed" where
  "dispatch verb uri escaped = (if uri = ''*'' then BadRequestURI
     else let path = (if verb = ''CONNECT'' then escaped else cleanPath escaped) in
       if path \<noteq> escaped then MovedTo path
       else case match_route verb path of Some e \<Rightarrow> Serve e
         | None \<Rightarrow> (let ms = allowed_methods path in if ms \<noteq> [] then MethodNotAllowed ms else NotFound))"

section \<open>What dispatch guarantees\<close>

lemma match_route_Some:
  assumes "match_route verb path = Some e"
  shows "method_matches e verb \<and> path_matches e path"
  using assms by (auto simp: match_route_def find_Some_iff)

lemma dispatch_Serve: "dispatch verb uri path = Serve e \<Longrightarrow> method_matches e verb \<and> path_matches e path \<and> uri \<noteq> ''*''"
  by (auto simp: dispatch_def Let_def dest: match_route_Some split: if_splits option.splits)

text \<open>Unescaping commutes with cutting a path before a slash.\<close>

lemma hex_val_slash [simp]: "hex_val (CHR ''/'') = None"
  by (simp add: hex_val_def)

lemma unescape_cut:
  assumes "b = [] \<or> hd b = CHR ''/''" "unescape (a @ b) = Some v"
  shows "\<exists>a' b'. unescape a = Some a' \<and> unescape b = Some b' \<and> v = a' @ b'"
  using assms(2)
proof (induction a arbitrary: v rule: measure_induct_rule[of length])
  case (less a)
  show ?case
  proof (cases a)
    case Nil
    with less.prems show ?thesis by simp
  next
    case (Cons c s)
    show ?thesis
    proof (cases "c = CHR ''%''")
      case False
      with less.prems Cons obtain w where w: "unescape (s @ b) = Some w" "v = c # w" by auto
      with less.IH[of s w] False Cons show ?thesis by auto
    next
      case True
      with less.prems Cons assms(1) obtain x y i j rest w where s: "s = x # y # rest" "hex_val x = Some i" "hex_val y = Some j"
        "unescape (rest @ b) = Some w" "v = char_of (16 * i + j) # w"
        by (cases s; cases "tl s"; cases b) (auto split: option.splits list.splits)
      with less.IH[of rest w] True Cons show ?thesis by auto
    qed
  qed
qed

lemma path_segments_slash:
  "path_segments (CHR ''/'' # s) = (if s = [] then [''/''] else
     segment_of (takeWhile (\<lambda>x. x \<noteq> CHR ''/'') s) # path_segments (dropWhile (\<lambda>x. x \<noteq> CHR ''/'') s))"
  by (simp add: path_segments.simps(2))

text \<open>The decoded path of a matched request spells out the segments it was matched by.\<close>

lemma decoded_segments:
  assumes "unescape p = Some v" "p = [] \<or> hd p = CHR ''/''" "''/'' \<notin> set (path_segments p)"
  shows "v = concat (map (\<lambda>s. CHR ''/'' # s) (path_segments p))"
  using assms
proof (induction p arbitrary: v rule: measure_induct_rule[of length])
  case (less p)
  show ?case
  proof (cases p)
    case Nil
    with less.prems show ?thesis by simp
  next
    case (Cons c s)
    with less.prems(2) have p: "p = CHR ''/'' # s" by simp
    let ?a = "takeWhile (\<lambda>x. x \<noteq> CHR ''/'') s" and ?b = "dropWhile (\<lambda>x. x \<noteq> CHR ''/'') s"
    have s: "s \<noteq> []" using less.prems(3) by (auto simp: p path_segments_slash)
    from less.prems(1) obtain w where w: "unescape (?a @ ?b) = Some w" "v = CHR ''/'' # w" by (auto simp: p)
    have b: "?b = [] \<or> hd ?b = CHR ''/''" using hd_dropWhile by blast
    from unescape_cut[OF b w(1)] obtain a' b' where ab: "unescape ?a = Some a'" "unescape ?b = Some b'" "w = a' @ b'" by blast
    have "length ?b < length p" using length_dropWhile_le[of "\<lambda>x. x \<noteq> CHR ''/''" s] by (simp add: p)
    moreover have "''/'' \<notin> set (path_segments ?b)" using less.prems(3) s by (simp add: p path_segments_slash)
    ultimately have "b' = concat (map (\<lambda>s. CHR ''/'' # s) (path_segments ?b))" using less.IH ab(2) b by blast
    then show ?thesis using s ab w by (simp add: p path_segments_slash segment_of_def)
  qed
qed

lemma endpoint_segments [simp]:
  "path_segments ''/health/live'' = [''health'', ''live'']" "path_segments ''/health/ready'' = [''health'', ''ready'']"
  "path_segments ''/v1/policies'' = [''v1'', ''policies'']" "path_segments ''/v1/evaluations'' = [''v1'', ''evaluations'']"
  "path_segments ''/metrics'' = [''metrics'']"
  by (simp_all add: path_segments.simps(2) segment_of_def)

lemma endpoint_join: "concat (map (\<lambda>s. CHR ''/'' # s) (path_segments (endpoint_path e))) = endpoint_path e"
  by (cases e) simp_all

lemma Clean_rooted: "hd (Clean p) = CHR ''/''"
  by (auto simp: Clean_def Let_def neq_Nil_conv)

lemma Clean_not_Nil [simp]: "Clean p \<noteq> []"
  by (auto simp: Clean_def Let_def)

lemma cleanPath_rooted: "hd (cleanPath p) = CHR ''/''"
  by (auto simp: cleanPath_def Let_def hd_append Clean_rooted)

lemma dispatch_rooted:
  assumes "dispatch verb uri path = Serve e"
  shows "hd path = CHR ''/''"
proof -
  have "verb \<noteq> ''CONNECT''" using dispatch_Serve[OF assms] by (cases e) (auto simp: method_matches_def)
  with assms have "cleanPath path = path" by (auto simp: dispatch_def Let_def split: if_splits)
  with cleanPath_rooted[of path] show ?thesis by simp
qed

lemma served_path:
  assumes "unescape escaped = Some path" "dispatch verb uri escaped = Serve e"
  shows "path = endpoint_path e"
proof -
  have m: "path_segments escaped = path_segments (endpoint_path e)" using dispatch_Serve[OF assms(2)] by (simp add: path_matches_def)
  have "''/'' \<notin> set (path_segments escaped)" unfolding m by (cases e) simp_all
  with decoded_segments[OF assms(1)] dispatch_rooted[OF assms(2)] m endpoint_join[of e] show ?thesis by simp
qed

lemma metricRoute_endpoint [simp]: "metricRoute (endpoint_path e) = endpoint_path e"
  by (cases e) (simp_all add: metricRoute_def)

lemma metricRoute_values: "metricRoute path \<in> set (''unmatched'' # map endpoint_path routes)"
  by (simp add: metricRoute_def routes_def)

text \<open>Each route is reached by its own method and path, and by nothing else under a clean path.\<close>

lemma dispatch_endpoint: "dispatch (endpoint_method e) (endpoint_path e) (endpoint_path e) = Serve e"
  by (cases e) (simp_all add: dispatch_def cleanPath_def Clean_def push_segment_def Let_def match_route_def routes_def
      method_matches_def path_matches_def)

end
