(* ===== verification/GR_Http.thy ===== *)
theory GR_Http
  imports GR_Readings GR_Auth GR_Observability GR_Mux
begin

text \<open>
  The HTTP layer, \<open>internal/api/http/handler.go\<close>: the response writer, the JSON bodies, audit and
  metric records, the handlers, authentication and the observing wrapper. What a handler does is a
  function on the state of the exchange: the response written so far, the calls made on the
  observer, in order, and whether a panic ended it. The world answers what the code asks for: the
  clock, the timers, SHA-256, the JSON decoder, random identifiers, and the metrics recorded so far.
\<close>

section \<open>Requests and the world\<close>

record http_request =
  rq_Method :: string
  rq_URI :: string
  rq_EscapedPath :: string
  rq_Path :: string
  rq_Authorization :: string
  rq_Traceparent :: string
  rq_Body :: string

text \<open>
  \<open>decoder.Decode(&req)\<close> on the bytes that can be read, told whether a read error follows them: the
  error text with what was decoded before it, or the request and the number of bytes of its value.
\<close>

datatype decoded = DecodeFailed evaluation_request string | Decoded evaluation_request nat

record world =
  wd_sha :: "string \<Rightarrow> string"
  wd_decode :: "string \<Rightarrow> bool \<Rightarrow> decoded"
  wd_redirect :: "string \<Rightarrow> string"
  wd_format :: "rat \<Rightarrow> string"
  wd_started :: int
  wd_ended :: int
  wd_fired :: int
  wd_eval :: environment
  wd_freshTrace :: string
  wd_freshSpan :: string
  wd_metrics :: metrics

text \<open>The observers the handler can be given: \<open>Nop\<close> and the built-in \<open>Service\<close>.\<close>

datatype observer = Nop | Service

section \<open>The response writer\<close>

datatype chunk = JsonChunk json | TextChunk string | RedirectChunk

text \<open>\<open>statusWriter\<close> over the server's writer: \<open>wr_observed\<close> is its own status, \<open>wr_sent\<close> the one sent.\<close>

record writer =
  wr_headers :: "(string \<times> string) list"
  wr_sent :: "int option"
  wr_observed :: int
  wr_body :: "chunk list"

definition new_writer :: "(string \<times> string) list \<Rightarrow> writer" where
  "new_writer headers = \<lparr>wr_headers = headers, wr_sent = None, wr_observed = 200, wr_body = []\<rparr>"

definition SetHeader :: "string \<Rightarrow> string \<Rightarrow> writer \<Rightarrow> writer" where
  "SetHeader k v w = w\<lparr>wr_headers := AList.update k v (wr_headers w)\<rparr>"

definition WriteHeader :: "int \<Rightarrow> writer \<Rightarrow> writer" where
  "WriteHeader status w = w\<lparr>wr_observed := status, wr_sent := Some (case wr_sent w of None \<Rightarrow> status | Some s \<Rightarrow> s)\<rparr>"

definition Write :: "chunk \<Rightarrow> writer \<Rightarrow> writer" where
  "Write c w = w\<lparr>wr_sent := Some (case wr_sent w of None \<Rightarrow> 200 | Some s \<Rightarrow> s), wr_body := wr_body w @ [c]\<rparr>"

text \<open>The status a client sees; the server sends 200 when the handler sent none.\<close>

definition sent_status :: "writer \<Rightarrow> int" where
  "sent_status w = (case wr_sent w of None \<Rightarrow> 200 | Some s \<Rightarrow> s)"

section \<open>The exchange\<close>

datatype obs_event = Traced trace_event | Evaluated evaluation_observation | Audited audit_event | Served http_observation

record exchange =
  xc_writer :: writer
  xc_events :: "obs_event list"
  xc_panicked :: bool

definition observe :: "obs_event list \<Rightarrow> exchange \<Rightarrow> exchange" where
  "observe evs x = x\<lparr>xc_events := xc_events x @ evs\<rparr>"

definition respond :: "(writer \<Rightarrow> writer) \<Rightarrow> exchange \<Rightarrow> exchange" where
  "respond f x = x\<lparr>xc_writer := f (xc_writer x)\<rparr>"

definition writeJSON :: "int \<Rightarrow> json \<Rightarrow> exchange \<Rightarrow> exchange" where
  "writeJSON status v = respond (\<lambda>w. Write (JsonChunk v) (WriteHeader status (SetHeader ''Content-Type'' ''application/json'' w)))"

definition error_json :: "string \<Rightarrow> string \<Rightarrow> json" where
  "error_json code msg = JObj [(''error'', JObj [(''code'', JStr code), (''message'', JStr msg), (''retryable'', JBool False)])]"

definition writeError :: "int \<Rightarrow> string \<Rightarrow> string \<Rightarrow> exchange \<Rightarrow> exchange" where
  "writeError status code msg = writeJSON status (error_json code msg)"

section \<open>JSON bodies\<close>

text \<open>A field with \<open>omitempty\<close>.\<close>

definition omit_string :: "string \<Rightarrow> string \<Rightarrow> (string \<times> json) list" where
  "omit_string k s = (if s = '''' then [] else [(k, JStr s)])"

definition omit_list :: "string \<Rightarrow> ('a \<Rightarrow> json) \<Rightarrow> 'a list \<Rightarrow> (string \<times> json) list" where
  "omit_list k f xs = (if xs = [] then [] else [(k, JArr (map f xs))])"

definition message_json :: "message \<Rightarrow> json" where
  "message_json m = JObj [(''role'', JStr (msg_Role m)), (''content'', JStr (msg_Content m))]"

definition content_json :: "content_envelope \<Rightarrow> json" where
  "content_json c = JObj (omit_string ''type'' (ce_Type c) @ omit_string ''text'' (ce_Text c) @
     omit_list ''messages'' message_json (ce_Messages c) @
     (case ce_Data c of None \<Rightarrow> [] | Some m \<Rightarrow> if m = [] then [] else [(''data'', JObj m)]))"

definition location_json :: "location \<Rightarrow> json" where
  "location_json l = JObj [(''path'', JStr (loc_Path l)), (''start'', json_int (loc_Start l)), (''end'', json_int (loc_End l))]"

definition finding_json :: "finding \<Rightarrow> json" where
  "finding_json f = JObj ([(''detector'', JStr (fi_DetectorID f)), (''category'', JStr (fi_Category f)),
     (''confidence'', JNum (fi_Confidence f))] @ omit_string ''severity'' (fi_Severity f) @
     omit_list ''locations'' location_json (fi_Locations f) @
     (if fi_Attributes f = [] then [] else [(''attributes'', JObj (fi_Attributes f))]))"

definition decision_json :: "decision \<Rightarrow> json" where
  "decision_json d = JObj ([(''action'', JStr (dec_Action d)), (''reason'', JStr (dec_Reason d))] @
     (case dec_TransformedContent d of None \<Rightarrow> [] | Some c \<Rightarrow> [(''transformed_content'', content_json c)]))"

definition timing_json :: "timing \<Rightarrow> json" where
  "timing_json t = JObj [(''total_ms'', json_int (tm_TotalMS t)),
     (''detectors'', JObj (map (\<lambda>(k, v). (k, json_int v)) (tm_Detectors t))),
     (''policies'', JObj (map (\<lambda>(k, v). (k, json_int v)) (tm_Policies t)))]"

definition failure_json :: "detector_failure \<Rightarrow> json" where
  "failure_json f = JObj ([(''policy'', JStr (df_PolicyID f))] @ omit_string ''detector'' (df_DetectorID f) @
     [(''scope'', JStr (df_Scope f)), (''code'', JStr (df_Code f)), (''failure_mode'', JStr (df_FailureMode f))] @
     (if df_TimeoutMS f = 0 then [] else [(''timeout_ms'', json_int (df_TimeoutMS f))]) @
     [(''retryable'', JBool (df_Retryable f))])"

text \<open>A nil slice encodes as null. \<open>AppliedPolicies\<close> starts as one; \<open>Findings\<close> is made empty, never nil.\<close>

definition slice_json :: "string slice \<Rightarrow> json" where
  "slice_json s = (case s of None \<Rightarrow> JNull | Some xs \<Rightarrow> JArr (map JStr xs))"

definition response_json :: "evaluation_response \<Rightarrow> json" where
  "response_json resp = JObj ([(''evaluation_id'', JStr (resp_EvaluationID resp)), (''request_id'', JStr (resp_RequestID resp)),
     (''decision'', decision_json (resp_Decision resp)),
     (''applied_policies'', slice_json (resp_AppliedPolicies resp)),
     (''findings'', JArr (map finding_json (resp_Findings resp)))] @
     omit_list ''detector_failures'' failure_json (resp_DetectorFailures resp) @
     [(''timing'', timing_json (resp_Timing resp))])"

section \<open>Audit and metric records\<close>

record handler =
  ha_evaluator :: evaluator
  ha_resolver :: resolver
  ha_access :: controller
  ha_observer :: observer

definition http_span_attrs :: "string \<Rightarrow> string \<Rightarrow> span_attributes" where
  "http_span_attrs oper stg = \<lparr>sa_Operation = oper, sa_Stage = stg, sa_PolicyID = '''', sa_DetectorID = ''''\<rparr>"

definition recordAudit :: "audit_event \<Rightarrow> exchange \<Rightarrow> exchange" where
  "recordAudit e = observe [Traced (SpanStart ''audit.emit'' (http_span_attrs '''' (ae_Stage e))), Audited e,
     Traced (SpanEnd ''audit.emit'' ''ok'')]"

definition failureSummaries :: "detector_failure list \<Rightarrow> failure_summary list" where
  "failureSummaries = map (\<lambda>f. \<lparr>fs_PolicyID = df_PolicyID f, fs_DetectorID = df_DetectorID f, fs_Scope = df_Scope f,
     fs_Code = df_Code f, fs_Mode = df_FailureMode f\<rparr>)"

definition summarise_finding :: "finding \<Rightarrow> finding_summary" where
  "summarise_finding f = \<lparr>fd_DetectorID = fi_DetectorID f, fd_Category = fi_Category f, fd_Confidence = fi_Confidence f,
     fd_Severity = fi_Severity f\<rparr>"

definition blank_audit :: audit_event where
  "blank_audit = \<lparr>ae_Type = '''', ae_Outcome = '''', ae_ErrorCode = '''', ae_EvaluationID = '''', ae_RequestIDHash = '''',
     ae_TenantID = '''', ae_PrincipalID = '''', ae_Stage = '''', ae_Action = '''', ae_AppliedPolicies = None,
     ae_Findings = None, ae_Failures = None, ae_TotalMS = 0, ae_PolicyTimingsMS = None, ae_DetectorTimingsMS = None\<rparr>"

definition completed_observation :: "evaluation_request \<Rightarrow> evaluation_response \<Rightarrow> duration \<Rightarrow> evaluation_observation" where
  "completed_observation req resp d = \<lparr>eo_Stage = req_Stage req, eo_Outcome = ''completed'',
     eo_Action = dec_Action (resp_Decision resp), eo_Duration = d,
     eo_FindingCategories = map fi_Category (resp_Findings resp), eo_DetectorTimings = tm_Detectors (resp_Timing resp),
     eo_Failures = failureSummaries (resp_DetectorFailures resp)\<rparr>"

definition completed_audit :: "world \<Rightarrow> principal \<Rightarrow> evaluation_request \<Rightarrow> evaluation_response \<Rightarrow> audit_event" where
  "completed_audit w p req resp = \<lparr>ae_Type = ''evaluation'', ae_Outcome = ''completed'', ae_ErrorCode = '''',
     ae_EvaluationID = resp_EvaluationID resp, ae_RequestIDHash = IdentifierDigest (wd_sha w) (resp_RequestID resp),
     ae_TenantID = req_TenantID req, ae_PrincipalID = pr_ID p, ae_Stage = req_Stage req,
     ae_Action = dec_Action (resp_Decision resp),
     ae_AppliedPolicies = resp_AppliedPolicies resp,
     ae_Findings = Some (map summarise_finding (resp_Findings resp)),
     ae_Failures = Some (failureSummaries (resp_DetectorFailures resp)), ae_TotalMS = tm_TotalMS (resp_Timing resp),
     ae_PolicyTimingsMS = Some (tm_Policies (resp_Timing resp)),
     ae_DetectorTimingsMS = Some (tm_Detectors (resp_Timing resp))\<rparr>"

definition recordCompletedEvaluation :: "world \<Rightarrow> principal \<Rightarrow> evaluation_request \<Rightarrow> evaluation_response \<Rightarrow> duration \<Rightarrow> exchange \<Rightarrow> exchange" where
  "recordCompletedEvaluation w p req resp d x =
     recordAudit (completed_audit w p req resp) (observe [Evaluated (completed_observation req resp d)] x)"

definition rejected_observation :: "evaluation_request \<Rightarrow> duration \<Rightarrow> evaluation_observation" where
  "rejected_observation req d = \<lparr>eo_Stage = req_Stage req, eo_Outcome = ''rejected'', eo_Action = '''', eo_Duration = d,
     eo_FindingCategories = [], eo_DetectorTimings = [], eo_Failures = []\<rparr>"

definition rejected_audit :: "world \<Rightarrow> principal option \<Rightarrow> evaluation_request \<Rightarrow> string \<Rightarrow> duration \<Rightarrow> audit_event" where
  "rejected_audit w who req code d = blank_audit\<lparr>ae_Type := ''evaluation'', ae_Outcome := ''rejected'', ae_ErrorCode := code,
     ae_RequestIDHash := IdentifierDigest (wd_sha w) (req_RequestID req),
     ae_PrincipalID := (case who of None \<Rightarrow> '''' | Some p \<Rightarrow> pr_ID p),
     ae_Stage := (if Stage_Valid (req_Stage req) then req_Stage req else ''''), ae_TotalMS := Milliseconds d\<rparr>"

definition recordRejectedEvaluation :: "world \<Rightarrow> principal option \<Rightarrow> evaluation_request \<Rightarrow> string \<Rightarrow> exchange \<Rightarrow> exchange" where
  "recordRejectedEvaluation w who req code x = (let d = wd_ended w - wd_started w in
     recordAudit (rejected_audit w who req code d) (observe [Evaluated (rejected_observation req d)] x))"

section \<open>The evaluation handler\<close>

definition maxBodyBytes :: nat where
  "maxBodyBytes = 2 ^ 20"

definition json_space :: "char \<Rightarrow> bool" where
  "json_space c \<longleftrightarrow> c \<in> set [CHR '' '', CHR 0x09, CHR 0x0A, CHR 0x0D]"

text \<open>
  Both calls of the decoder. At most \<open>maxBodyBytes\<close> can be read; the second call sees the end of the
  input only if white space is all that follows the first value and the limit was not hit. All of
  the body has been read and counted then.
\<close>

definition decode_request :: "world \<Rightarrow> string \<Rightarrow> (evaluation_request \<times> string, evaluation_request \<times> nat) result" where
  "decode_request w body =
     (let stream = take maxBodyBytes body; limited = maxBodyBytes < length body in
      case wd_decode w stream limited of
        DecodeFailed partial msg \<Rightarrow> Inl (partial, msg)
      | Decoded req used \<Rightarrow>
          if limited \<or> \<not> list_all json_space (drop used stream) then Inl (req, ''request must contain one JSON object'')
          else Inr (req, length stream))"

fun context_text :: "ctx_err \<Rightarrow> string" where
  "context_text Canceled = ''context canceled''"
| "context_text DeadlineExceeded = ''context deadline exceeded''"

fun error_text :: "unicode_tables \<Rightarrow> eval_error \<Rightarrow> string" where
  "error_text u (ContextEnded e) = context_text e"
| "error_text u (Unresolved (UnknownProfile p)) = ''unknown profile '' @ quote u p"
| "error_text u (Unresolved (UnknownPolicy i)) = ''unknown policy '' @ quote u i"

text \<open>\<open>errors.Is(err, r.Context().Err())\<close>; nothing is the nil error of a context that has not ended.\<close>

definition is_context_end :: "world \<Rightarrow> eval_error \<Rightarrow> bool" where
  "is_context_end w e = (case ctx_Err (ev_ctx (wd_eval w)) (wd_fired w) of None \<Rightarrow> False
     | Some target \<Rightarrow> (case e of ContextEnded ce \<Rightarrow> errors_Is (ContextError ce) target | Unresolved _ \<Rightarrow> False))"

definition reject :: "world \<Rightarrow> principal option \<Rightarrow> evaluation_request \<Rightarrow> int \<Rightarrow> string \<Rightarrow> string \<Rightarrow> exchange \<Rightarrow> exchange" where
  "reject w who req status code msg x = writeError status code msg (recordRejectedEvaluation w who req code x)"

definition run_evaluation :: "handler \<Rightarrow> world \<Rightarrow> principal \<Rightarrow> evaluation_request \<Rightarrow> exchange \<Rightarrow> exchange" where
  "run_evaluation h w p req x =
     (let run = Evaluate (ha_evaluator h) (wd_eval w) req; x = observe (map Traced (er_events run)) x;
          msg = error_text (lib_unicode (ev_library (wd_eval w))) in
      case er_outcome run of
        Panicked \<Rightarrow> x\<lparr>xc_panicked := True\<rparr>
      | EvalFailed e \<Rightarrow>
          if is_context_end w e then reject w (Some p) req 504 ''EVALUATION_DEADLINE_EXCEEDED'' (msg e) x
          else reject w (Some p) req 400 ''UNKNOWN_POLICY'' (msg e) x
      | Response resp \<Rightarrow>
          writeJSON 200 (response_json resp) (recordCompletedEvaluation w p req resp (wd_ended w - wd_started w) x))"

definition evaluate :: "handler \<Rightarrow> world \<Rightarrow> http_request \<Rightarrow> principal option \<Rightarrow> exchange \<Rightarrow> exchange" where
  "evaluate h w r who x =
     (case decode_request w (rq_Body r) of
        Inl (req, msg) \<Rightarrow> reject w who req 400 ''INVALID_REQUEST'' msg x
      | Inr (req, bytes) \<Rightarrow>
          if req_RequestID req = '''' then reject w who req 400 ''INVALID_REQUEST'' ''request_id is required'' x
          else if \<not> Stage_Valid (req_Stage req) then reject w who req 400 ''INVALID_REQUEST'' ''stage is invalid'' x
          else (case who of
            None \<Rightarrow> reject w who req 403 ''FORBIDDEN'' ''tenant is not authorized'' x
          | Some p \<Rightarrow> if AuthorizeTenant (ha_access h) p (req_TenantID req) \<noteq> Inr ()
              then reject w who req 403 ''FORBIDDEN'' ''tenant is not authorized'' x
              else run_evaluation h w p (req\<lparr>req_EncodedBytes := int bytes\<rparr>) x))"

section \<open>The other handlers\<close>

definition health :: "exchange \<Rightarrow> exchange" where
  "health = writeJSON 200 (JObj [(''status'', JStr ''ok'')])"

definition forbidden :: "exchange \<Rightarrow> exchange" where
  "forbidden = writeError 403 ''FORBIDDEN'' ''operation is not authorized''"

definition policies :: "handler \<Rightarrow> principal option \<Rightarrow> exchange \<Rightarrow> exchange" where
  "policies h who x = (case who of None \<Rightarrow> forbidden x
   | Some p \<Rightarrow> if AuthorizePolicyList (ha_access h) p \<noteq> Inr () then forbidden x
       else writeJSON 200 (JObj [(''policies'', JArr (map JStr (PolicyIDs (ha_resolver h))))]) x)"

text \<open>\<open>http.Error\<close>\<close>

definition plain_error :: "int \<Rightarrow> string \<Rightarrow> exchange \<Rightarrow> exchange" where
  "plain_error status msg = respond (\<lambda>w. Write (TextChunk (msg @ [CHR 0x0A])) (WriteHeader status
     (SetHeader ''X-Content-Type-Options'' ''nosniff'' (SetHeader ''Content-Type'' ''text/plain; charset=utf-8'' w))))"

fun MetricsHandler :: "observer \<Rightarrow> world \<Rightarrow> exchange \<Rightarrow> exchange" where
  "MetricsHandler Service w = respond (\<lambda>wr. Write (TextChunk (writeMetrics (wd_format w) (wd_metrics w)))
     (SetHeader ''Content-Type'' ''text/plain; version=0.0.4; charset=utf-8'' wr))"
| "MetricsHandler Nop w = plain_error 404 ''404 page not found''"

definition serve_metrics :: "handler \<Rightarrow> world \<Rightarrow> principal option \<Rightarrow> exchange \<Rightarrow> exchange" where
  "serve_metrics h w who x = (case who of None \<Rightarrow> forbidden x
   | Some p \<Rightarrow> if AuthorizeMetrics (ha_access h) p \<noteq> Inr () then forbidden x else MetricsHandler (ha_observer h) w x)"

definition denied_audit :: audit_event where
  "denied_audit = blank_audit\<lparr>ae_Type := ''api_access'', ae_Outcome := ''denied'', ae_ErrorCode := ''UNAUTHENTICATED'', ae_TotalMS := - 1\<rparr>"

definition requireAuthentication :: "handler \<Rightarrow> world \<Rightarrow> http_request \<Rightarrow> (principal option \<Rightarrow> exchange \<Rightarrow> exchange) \<Rightarrow> exchange \<Rightarrow> exchange" where
  "requireAuthentication h w r handle x =
     (case Authenticate (lib_unicode (ev_library (wd_eval w))) (wd_sha w) (ha_access h) (rq_Authorization r) of
        Inl e \<Rightarrow> writeError 401 ''UNAUTHENTICATED'' ''valid bearer authentication is required''
          (respond (SetHeader ''WWW-Authenticate'' ''Bearer'') (recordAudit denied_audit x))
      | Inr p \<Rightarrow> handle (Some p) x)"

section \<open>Routing and observing\<close>

fun serve_endpoint :: "handler \<Rightarrow> world \<Rightarrow> http_request \<Rightarrow> endpoint \<Rightarrow> exchange \<Rightarrow> exchange" where
  "serve_endpoint h w r Live = health"
| "serve_endpoint h w r Ready = health"
| "serve_endpoint h w r Policies = requireAuthentication h w r (policies h)"
| "serve_endpoint h w r Evaluations = requireAuthentication h w r (evaluate h w r)"
| "serve_endpoint h w r Metrics = requireAuthentication h w r (serve_metrics h w)"

fun join_comma :: "string list \<Rightarrow> string" where
  "join_comma [] = ''''"
| "join_comma [s] = s"
| "join_comma (s # ss) = s @ '', '' @ join_comma ss"

definition redirect :: "world \<Rightarrow> http_request \<Rightarrow> string \<Rightarrow> exchange \<Rightarrow> exchange" where
  "redirect w r path = respond (\<lambda>wr.
     let wr = SetHeader ''Location'' (wd_redirect w path) wr;
         wr = (if rq_Method r = ''GET'' \<or> rq_Method r = ''HEAD'' then SetHeader ''Content-Type'' ''text/html; charset=utf-8'' wr else wr);
         wr = WriteHeader 301 wr in
     if rq_Method r = ''GET'' then Write RedirectChunk wr else wr)"

definition serve_mux :: "handler \<Rightarrow> world \<Rightarrow> http_request \<Rightarrow> exchange \<Rightarrow> exchange" where
  "serve_mux h w r x = (case dispatch (rq_Method r) (rq_URI r) (rq_EscapedPath r) of
     Serve e \<Rightarrow> serve_endpoint h w r e x
   | MovedTo path \<Rightarrow> redirect w r path x
   | MethodNotAllowed ms \<Rightarrow> plain_error 405 ''Method Not Allowed'' (respond (SetHeader ''Allow'' (join_comma ms)) x)
   | NotFound \<Rightarrow> plain_error 404 ''404 page not found'' x
   | BadRequestURI \<Rightarrow> respond (WriteHeader 400) x)"

text \<open>The trace the context of a request carries, under the observer in use.\<close>

fun server_trace :: "observer \<Rightarrow> world \<Rightarrow> http_request \<Rightarrow> trace_context option" where
  "server_trace Nop w r = None"
| "server_trace Service w r = Some (fst (StartSpan (Some (ContinueTrace (rq_Traceparent r) (wd_freshTrace w)))
     (wd_freshTrace w) (wd_freshSpan w) (wd_started w) ''http.server'' (http_span_attrs (metricRoute (rq_Path r)) '''')))"

definition start_exchange :: "handler \<Rightarrow> world \<Rightarrow> http_request \<Rightarrow> exchange" where
  "start_exchange h w r = (let tp = Traceparent (server_trace (ha_observer h) w r) in
     \<lparr>xc_writer = new_writer (if tp \<noteq> '''' then [(''traceparent'', tp)] else []),
       xc_events = [Traced (SpanStart ''http.server'' (http_span_attrs (metricRoute (rq_Path r)) ''''))], xc_panicked = False\<rparr>)"

definition finish_exchange :: "http_request \<Rightarrow> exchange \<Rightarrow> exchange" where
  "finish_exchange r x = (let observed = wr_observed (xc_writer x) in
     if xc_panicked x then x
     else observe [Served \<lparr>ho_Method = rq_Method r, ho_Route = metricRoute (rq_Path r), ho_Status = observed\<rparr>,
       Traced (SpanEnd ''http.server'' (if 500 \<le> observed then ''error'' else ''ok''))] x)"

definition observeHTTP :: "handler \<Rightarrow> world \<Rightarrow> http_request \<Rightarrow> exchange" where
  "observeHTTP h w r = finish_exchange r (serve_mux h w r (start_exchange h w r))"

text \<open>\<open>httpapi.New\<close>: the first observer given, unless it is nil.\<close>

definition New_handler :: "evaluator \<Rightarrow> resolver \<Rightarrow> controller \<Rightarrow> observer option list \<Rightarrow> handler" where
  "New_handler el r access observers = \<lparr>ha_evaluator = el, ha_resolver = r, ha_access = access,
     ha_observer = (case observers of Some o' # _ \<Rightarrow> o' | _ \<Rightarrow> Nop)\<rparr>"

end
