(* ===== verification/GR_Api.thy ===== *)
theory GR_Api
  imports GR_Http
begin

text \<open>
  What the HTTP layer guarantees. A handler answers when it sends one status, the same that the
  observing wrapper records, and adds balanced spans; the locales \<open>responder\<close> and
  \<open>principal_responder\<close> state this contract, carry it through authentication and observation, and
  are interpreted by the handlers of the model.
\<close>

section \<open>What an exchange recorded\<close>

fun trace_of :: "obs_event \<Rightarrow> trace_event list" where
  "trace_of (Traced t) = [t]" | "trace_of _ = []"

fun audit_of :: "obs_event \<Rightarrow> audit_event list" where
  "audit_of (Audited a) = [a]" | "audit_of _ = []"

fun evaluation_of :: "obs_event \<Rightarrow> evaluation_observation list" where
  "evaluation_of (Evaluated e) = [e]" | "evaluation_of _ = []"

fun served_of :: "obs_event \<Rightarrow> http_observation list" where
  "served_of (Served s) = [s]" | "served_of _ = []"

definition traces :: "obs_event list \<Rightarrow> trace_event list" where "traces evs = concat (map trace_of evs)"
definition audits :: "obs_event list \<Rightarrow> audit_event list" where "audits evs = concat (map audit_of evs)"
definition evaluations :: "obs_event list \<Rightarrow> evaluation_observation list" where "evaluations evs = concat (map evaluation_of evs)"
definition services :: "obs_event list \<Rightarrow> http_observation list" where "services evs = concat (map served_of evs)"

lemma trace_of_Traced [simp]: "concat (map (trace_of \<circ> Traced) ts) = ts" "concat (map (audit_of \<circ> Traced) ts) = []"
  "concat (map (evaluation_of \<circ> Traced) ts) = []" "concat (map (served_of \<circ> Traced) ts) = []"
  by (induction ts) auto

lemma recorded_simps [simp]:
  "traces [] = []" "traces (e # evs) = trace_of e @ traces evs" "traces (xs @ ys) = traces xs @ traces ys" "traces (map Traced ts) = ts"
  "audits [] = []" "audits (e # evs) = audit_of e @ audits evs" "audits (xs @ ys) = audits xs @ audits ys" "audits (map Traced ts) = []"
  "evaluations [] = []" "evaluations (e # evs) = evaluation_of e @ evaluations evs" "evaluations (xs @ ys) = evaluations xs @ evaluations ys"
  "evaluations (map Traced ts) = []"
  "services [] = []" "services (e # evs) = served_of e @ services evs" "services (xs @ ys) = services xs @ services ys"
  "services (map Traced ts) = []"
  by (simp_all add: traces_def audits_def evaluations_def services_def)

section \<open>Answering\<close>

definition ready :: "exchange \<Rightarrow> bool" where
  "ready x \<longleftrightarrow> \<not> xc_panicked x \<and> wr_sent (xc_writer x) = None"

definition trace_header :: "exchange \<Rightarrow> string option" where
  "trace_header x = map_of (wr_headers (xc_writer x)) ''traceparent''"

text \<open>One status, the one recorded; events added with balanced spans and no HTTP record of their own.\<close>

definition answered :: "exchange \<Rightarrow> exchange \<Rightarrow> bool" where
  "answered x x' \<longleftrightarrow> \<not> xc_panicked x' \<and> trace_header x' = trace_header x \<and>
     (\<exists>s. wr_sent (xc_writer x') = Some s \<and> wr_observed (xc_writer x') = s \<and> 200 \<le> s \<and> s \<le> 599) \<and>
     (\<exists>evs. xc_events x' = xc_events x @ evs \<and> balanced (traces evs) \<and> services evs = [])"

text \<open>Steps that only record.\<close>

definition noted :: "exchange \<Rightarrow> exchange \<Rightarrow> bool" where
  "noted x x' \<longleftrightarrow> xc_panicked x' = xc_panicked x \<and> xc_writer x' = xc_writer x \<and>
     (\<exists>evs. xc_events x' = xc_events x @ evs \<and> balanced (traces evs) \<and> services evs = [])"

lemma noted_observe: "balanced (traces evs) \<Longrightarrow> services evs = [] \<Longrightarrow> noted x (observe evs x)"
  by (auto simp: noted_def observe_def)

lemma noted_trans: "noted x y \<Longrightarrow> noted y z \<Longrightarrow> noted x z"
  by (auto simp: noted_def balanced_append intro: exI[of _ "_ @ _"])

lemma noted_answered: "noted x y \<Longrightarrow> answered y z \<Longrightarrow> answered x z"
proof -
  assume n: "noted x y" and a: "answered y z"
  obtain e1 where e1: "xc_events y = xc_events x @ e1" "balanced (traces e1)" "services e1 = []"
    using n by (auto simp: noted_def)
  obtain e2 where e2: "xc_events z = xc_events y @ e2" "balanced (traces e2)" "services e2 = []"
    using a by (auto simp: answered_def)
  have "xc_events z = xc_events x @ (e1 @ e2) \<and> balanced (traces (e1 @ e2)) \<and> services (e1 @ e2) = []"
    using e1 e2 by (simp add: balanced_append)
  then have "\<exists>evs. xc_events z = xc_events x @ evs \<and> balanced (traces evs) \<and> services evs = []" by blast
  with n a show ?thesis by (simp add: answered_def noted_def trace_header_def)
qed

lemma noted_ready: "noted x y \<Longrightarrow> ready x \<Longrightarrow> ready y"
  by (simp add: noted_def ready_def)

lemma noted_recordAudit: "noted x (recordAudit e x)"
  unfolding recordAudit_def by (rule noted_observe) (simp_all add: balanced_span_Cons)

lemma noted_rejected: "noted x (recordRejectedEvaluation w who req code x)"
  unfolding recordRejectedEvaluation_def Let_def
  by (rule noted_trans[OF noted_observe noted_recordAudit]) simp_all

lemma noted_completed: "noted x (recordCompletedEvaluation w p req resp d x)"
  unfolding recordCompletedEvaluation_def
  by (rule noted_trans[OF noted_observe noted_recordAudit]) simp_all

lemma answered_respond:
  assumes "ready x" "wr_sent (f (xc_writer x)) = Some s" "wr_observed (f (xc_writer x)) = s" "200 \<le> s" "s \<le> 599"
    and "map_of (wr_headers (f (xc_writer x))) ''traceparent'' = map_of (wr_headers (xc_writer x)) ''traceparent''"
  shows "answered x (respond f x)"
  using assms by (auto simp: answered_def respond_def ready_def trace_header_def)

lemmas writer_defs = WriteHeader_def Write_def SetHeader_def

lemma answered_writeJSON: "ready x \<Longrightarrow> 200 \<le> s \<Longrightarrow> s \<le> 599 \<Longrightarrow> answered x (writeJSON s v x)"
  unfolding writeJSON_def by (rule answered_respond[where s = s]) (simp_all add: writer_defs ready_def update_conv')

lemma answered_writeError: "ready x \<Longrightarrow> 200 \<le> s \<Longrightarrow> s \<le> 599 \<Longrightarrow> answered x (writeError s code msg x)"
  unfolding writeError_def by (rule answered_writeJSON)

lemma answered_reject: "ready x \<Longrightarrow> 200 \<le> s \<Longrightarrow> s \<le> 599 \<Longrightarrow> answered x (reject w who req s code msg x)"
  unfolding reject_def by (rule noted_answered[OF noted_rejected answered_writeError]) (use noted_ready[OF noted_rejected] in auto)

lemma answered_forbidden: "ready x \<Longrightarrow> answered x (forbidden x)"
  unfolding forbidden_def by (rule answered_writeError) simp_all

lemma answered_plain_error: "ready x \<Longrightarrow> 200 \<le> s \<Longrightarrow> s \<le> 599 \<Longrightarrow> answered x (plain_error s msg x)"
  unfolding plain_error_def by (rule answered_respond[where s = s]) (simp_all add: writer_defs ready_def update_conv')

lemma answered_MetricsHandler: "ready x \<Longrightarrow> wr_observed (xc_writer x) = 200 \<Longrightarrow> answered x (MetricsHandler obs w x)"
  by (cases obs) (auto simp: answered_plain_error writer_defs ready_def update_conv' intro!: answered_respond[where s = 200])

section \<open>The contract of handlers\<close>

text \<open>A writer nothing was written to yet.\<close>

definition untouched :: "exchange \<Rightarrow> bool" where
  "untouched x \<longleftrightarrow> ready x \<and> wr_observed (xc_writer x) = 200"

lemma noted_untouched: "noted x y \<Longrightarrow> untouched x \<Longrightarrow> untouched y"
  by (simp add: noted_def untouched_def ready_def)

lemma start_exchange_untouched: "untouched (start_exchange h w r)"
  by (simp add: start_exchange_def untouched_def ready_def new_writer_def Let_def)

locale responder =
  fixes invar :: "'a \<Rightarrow> bool" and handle :: "'a \<Rightarrow> exchange \<Rightarrow> exchange"
  assumes answers: "invar a \<Longrightarrow> untouched x \<Longrightarrow> answered x (handle a x)"
begin

text \<open>Under the observing wrapper: one HTTP record, of the status sent, and balanced spans.\<close>

lemma observed_once:
  fixes h :: handler and w :: world and r :: http_request
  assumes "invar a"
  defines "x \<equiv> finish_exchange r (handle a (start_exchange h w r))"
  shows "services (xc_events x) = [\<lparr>ho_Method = rq_Method r, ho_Route = metricRoute (rq_Path r), ho_Status = sent_status (xc_writer x)\<rparr>] \<and>
    200 \<le> sent_status (xc_writer x) \<and> sent_status (xc_writer x) \<le> 599 \<and> balanced (traces (xc_events x)) \<and>
    \<not> xc_panicked x \<and> trace_header x = trace_header (start_exchange h w r)"
proof -
  let ?y = "handle a (start_exchange h w r)"
  have a: "answered (start_exchange h w r) ?y" by (rule answers[OF assms(1) start_exchange_untouched])
  then obtain s evs where s: "wr_sent (xc_writer ?y) = Some s" "wr_observed (xc_writer ?y) = s" "200 \<le> s" "s \<le> 599"
    "xc_events ?y = xc_events (start_exchange h w r) @ evs" "balanced (traces evs)" "services evs = []" "\<not> xc_panicked ?y"
    "trace_header ?y = trace_header (start_exchange h w r)"
    by (auto simp: answered_def)
  then show ?thesis
    using balanced_span[OF s(6)]
    by (simp add: x_def finish_exchange_def Let_def observe_def sent_status_def start_exchange_def trace_header_def)
qed

end

locale principal_responder =
  fixes invar :: "'a \<Rightarrow> bool" and handle_as :: "'a \<Rightarrow> principal option \<Rightarrow> exchange \<Rightarrow> exchange"
  assumes answers_as: "invar a \<Longrightarrow> untouched x \<Longrightarrow> answered x (handle_as a who x)"

text \<open>A handler behind authentication answers.\<close>

sublocale principal_responder \<subseteq> guarded: responder "\<lambda>(h, w, r, a). invar a" "\<lambda>(h, w, r, a). requireAuthentication h w r (handle_as a)"
proof (unfold_locales, goal_cases)
  case (1 b x)
  obtain h w r a where b: "b = (h, w, r, a)" by (metis prod_cases4)
  have ready: "ready x" using 1(2) by (simp add: untouched_def)
  have y: "ready (recordAudit denied_audit x)" using noted_ready[OF noted_recordAudit ready] .
  have "answered (recordAudit denied_audit x) (writeError 401 ''UNAUTHENTICATED'' ''valid bearer authentication is required''
          (respond (SetHeader ''WWW-Authenticate'' ''Bearer'') (recordAudit denied_audit x)))"
    using y by (simp add: answered_def writeError_def writeJSON_def respond_def ready_def writer_defs trace_header_def update_conv')
  with noted_answered[OF noted_recordAudit] answers_as[of a x] 1 show ?case
    by (auto simp: b requireAuthentication_def split: sum.split)
qed

section \<open>The handlers keep the contract\<close>

text \<open>A handler as \<open>New_handler\<close> makes it from an accepted resolver.\<close>

definition wf_handler :: "handler \<Rightarrow> bool" where
  "wf_handler h \<longleftrightarrow> wf_resolver (ha_resolver h) \<and> ha_evaluator h = New_evaluator (ha_resolver h)"

interpretation policies_handler: principal_responder "\<lambda>_. True" policies
  by unfold_locales (auto simp: policies_def untouched_def answered_forbidden answered_writeJSON split: option.split)

interpretation metrics_handler: principal_responder "\<lambda>_. True" "\<lambda>(h, w). serve_metrics h w"
  by unfold_locales (auto simp: serve_metrics_def untouched_def answered_forbidden answered_MetricsHandler split: option.split)

lemma noted_run: "wf_handler h \<Longrightarrow> noted x (observe (map Traced (er_events (Evaluate (ha_evaluator h) env req))) x)"
  by (rule noted_observe) (auto simp: wf_handler_def Evaluate_balanced)

lemma Evaluate_no_panic: "wf_handler h \<Longrightarrow> er_outcome (Evaluate (ha_evaluator h) env req) \<noteq> Panicked"
  using Evaluate_ends[of "ha_resolver h" env req] by (auto simp: wf_handler_def)

lemma answered_run:
  assumes "wf_handler h" "ready x"
  shows "answered x (run_evaluation h w p req x)"
proof -
  let ?y = "observe (map Traced (er_events (Evaluate (ha_evaluator h) (wd_eval w) req))) x"
  have n: "noted x ?y" using noted_run[OF assms(1)] .
  then have y: "ready ?y" using assms(2) by (rule noted_ready)
  have "answered ?y (run_evaluation h w p req x)"
  proof (cases "er_outcome (Evaluate (ha_evaluator h) (wd_eval w) req)")
    case (Response resp)
    then show ?thesis
      using noted_answered[OF noted_completed answered_writeJSON] noted_ready[OF noted_completed y]
      by (simp add: run_evaluation_def Let_def)
  next
    case (EvalFailed e)
    then show ?thesis using y by (simp add: run_evaluation_def Let_def answered_reject)
  qed (use Evaluate_no_panic[OF assms(1)] in auto)
  with n show ?thesis by (rule noted_answered)
qed

interpretation evaluate_handler: principal_responder "\<lambda>(h, w, r). wf_handler h" "\<lambda>(h, w, r). evaluate h w r"
proof (unfold_locales, goal_cases)
  case (1 a x who)
  obtain h w r where a: "a = (h, w, r)" by (metis prod_cases3)
  have "ready x" "wf_handler h" using 1 by (simp_all add: a untouched_def)
  then show ?case
    by (simp add: a evaluate_def answered_reject answered_run split: sum.split option.split prod.split)
qed

interpretation mux: responder "\<lambda>(h, w, r). wf_handler h" "\<lambda>(h, w, r). serve_mux h w r"
proof (unfold_locales, goal_cases)
  case (1 a x)
  obtain h w r where a: "a = (h, w, r)" by (metis prod_cases3)
  have wf: "wf_handler h" and x: "untouched x" and ready: "ready x" using 1 by (simp_all add: a untouched_def)
  have "answered x (serve_endpoint h w r e x)" for e
  proof (cases e)
    case Policies
    with policies_handler.guarded.answers[of "(h, w, r, h)" x] x show ?thesis by simp
  next
    case Evaluations
    with evaluate_handler.guarded.answers[of "(h, w, r, h, w, r)" x] x wf show ?thesis by simp
  next
    case Metrics
    with metrics_handler.guarded.answers[of "(h, w, r, h, w)" x] x show ?thesis by simp
  qed (simp_all add: health_def answered_writeJSON ready)
  moreover have "answered x (redirect w r path x)" for path
    unfolding redirect_def Let_def using ready
    by (intro answered_respond[where s = 301]) (auto simp: writer_defs ready_def update_conv')
  moreover have "answered x (plain_error 405 msg (respond (SetHeader ''Allow'' v) x))" for msg v
    using ready by (simp add: answered_def plain_error_def respond_def ready_def writer_defs trace_header_def update_conv')
  moreover have "answered x (plain_error 404 msg x)" for msg using ready by (simp add: answered_plain_error)
  moreover have "answered x (respond (WriteHeader 400) x)"
    using ready by (intro answered_respond[where s = 400]) (auto simp: writer_defs ready_def)
  ultimately show ?case by (simp add: a serve_mux_def split: routed.split)
qed

lemma observeHTTP_once:
  assumes "wf_handler h"
  shows "services (xc_events (observeHTTP h w r)) = [\<lparr>ho_Method = rq_Method r, ho_Route = metricRoute (rq_Path r),
      ho_Status = sent_status (xc_writer (observeHTTP h w r))\<rparr>] \<and>
    200 \<le> sent_status (xc_writer (observeHTTP h w r)) \<and> sent_status (xc_writer (observeHTTP h w r)) \<le> 599 \<and>
    balanced (traces (xc_events (observeHTTP h w r))) \<and> \<not> xc_panicked (observeHTTP h w r) \<and>
    trace_header (observeHTTP h w r) = trace_header (start_exchange h w r)"
  using mux.observed_once[of "(h, w, r)" r h w] assms by (simp add: observeHTTP_def)

text \<open>
  C6. Every request is answered and observed once: no handler panics, one status between 200 and 599 is
  sent, exactly one HTTP observation records that very status under the request's method and one of
  the six known route labels, and every span started is ended, innermost first.
\<close>

theorem every_request_observed:
  assumes "wf_handler h"
  shows "services (xc_events (observeHTTP h w r)) = [\<lparr>ho_Method = rq_Method r, ho_Route = metricRoute (rq_Path r),
      ho_Status = sent_status (xc_writer (observeHTTP h w r))\<rparr>] \<and>
    200 \<le> sent_status (xc_writer (observeHTTP h w r)) \<and> sent_status (xc_writer (observeHTTP h w r)) \<le> 599 \<and>
    metricRoute (rq_Path r) \<in> set (''unmatched'' # map endpoint_path routes) \<and>
    balanced (traces (xc_events (observeHTTP h w r))) \<and> \<not> xc_panicked (observeHTTP h w r)"
  using observeHTTP_once[OF assms] metricRoute_values by blast

section \<open>The evaluation endpoint\<close>

abbreviation authenticate :: "handler \<Rightarrow> world \<Rightarrow> http_request \<Rightarrow> (access_error, principal) result" where
  "authenticate h w r \<equiv> Authenticate (lib_unicode (ev_library (wd_eval w))) (wd_sha w) (ha_access h) (rq_Authorization r)"

abbreviation route :: "http_request \<Rightarrow> routed" where
  "route r \<equiv> dispatch (rq_Method r) (rq_URI r) (rq_EscapedPath r)"

text \<open>Projections of the exchange through the operations that build it.\<close>

lemma exchange_simps [simp]:
  "xc_writer (observe evs x) = xc_writer x" "xc_events (observe evs x) = xc_events x @ evs" "xc_panicked (observe evs x) = xc_panicked x"
  "xc_writer (respond f x) = f (xc_writer x)" "xc_events (respond f x) = xc_events x" "xc_panicked (respond f x) = xc_panicked x"
  "xc_events (writeJSON s v x) = xc_events x" "xc_panicked (writeJSON s v x) = xc_panicked x"
  "wr_body (xc_writer (writeJSON s v x)) = wr_body (xc_writer x) @ [JsonChunk v]"
  "xc_writer (recordAudit a x) = xc_writer x" "xc_panicked (recordAudit a x) = xc_panicked x"
  "xc_writer (recordRejectedEvaluation w who req code x) = xc_writer x"
  "xc_panicked (recordRejectedEvaluation w who req code x) = xc_panicked x"
  "xc_writer (recordCompletedEvaluation w p req resp d x) = xc_writer x"
  "xc_panicked (recordCompletedEvaluation w p req resp d x) = xc_panicked x"
  by (simp_all add: observe_def respond_def writeJSON_def recordAudit_def recordRejectedEvaluation_def recordCompletedEvaluation_def
      writer_defs Let_def)

lemma SetHeader_simps [simp]:
  "wr_sent (SetHeader k v wr) = wr_sent wr" "wr_body (SetHeader k v wr) = wr_body wr" "wr_observed (SetHeader k v wr) = wr_observed wr"
  by (simp_all add: SetHeader_def)

lemma sent_writeJSON [simp]: "wr_sent (xc_writer x) = None \<Longrightarrow> sent_status (xc_writer (writeJSON s v x)) = s"
  by (simp add: writeJSON_def writer_defs sent_status_def)

lemma sent_writeError [simp]: "wr_sent (xc_writer x) = None \<Longrightarrow> sent_status (xc_writer (writeError s c m x)) = s"
  by (simp add: writeError_def)

lemma writeError_simps [simp]:
  "xc_events (writeError s c m x) = xc_events x" "wr_body (xc_writer (writeError s c m x)) = wr_body (xc_writer x) @ [JsonChunk (error_json c m)]"
  by (simp_all add: writeError_def)

lemma audits_recordAudit [simp]: "audits (xc_events (recordAudit a x)) = audits (xc_events x) @ [a]"
  "evaluations (xc_events (recordAudit a x)) = evaluations (xc_events x)"
  by (simp_all add: recordAudit_def)

lemma recorded_rejected [simp]:
  "audits (xc_events (recordRejectedEvaluation w who req code x)) = audits (xc_events x) @ [rejected_audit w who req code (wd_ended w - wd_started w)]"
  "evaluations (xc_events (recordRejectedEvaluation w who req code x)) = evaluations (xc_events x) @ [rejected_observation req (wd_ended w - wd_started w)]"
  by (simp_all add: recordRejectedEvaluation_def Let_def)

lemma recorded_completed [simp]:
  "audits (xc_events (recordCompletedEvaluation w p req resp d x)) = audits (xc_events x) @ [completed_audit w p req resp]"
  "evaluations (xc_events (recordCompletedEvaluation w p req resp d x)) = evaluations (xc_events x) @ [completed_observation req resp d]"
  by (simp_all add: recordCompletedEvaluation_def)

lemma finish_exchange_simps [simp]:
  "xc_writer (finish_exchange r x) = xc_writer x" "audits (xc_events (finish_exchange r x)) = audits (xc_events x)"
  "evaluations (xc_events (finish_exchange r x)) = evaluations (xc_events x)"
  by (simp_all add: finish_exchange_def Let_def)

lemma start_exchange_simps [simp]:
  "wr_sent (xc_writer (start_exchange h w r)) = None" "wr_body (xc_writer (start_exchange h w r)) = []"
  "audits (xc_events (start_exchange h w r)) = []" "evaluations (xc_events (start_exchange h w r)) = []"
  by (simp_all add: start_exchange_def new_writer_def Let_def)

text \<open>The spans that the recording operations start.\<close>

lemma started_recordAudit [simp]:
  "Traced (SpanStart n a) \<in> set (xc_events (recordAudit e x)) \<longleftrightarrow>
     n = ''audit.emit'' \<and> a = http_span_attrs '''' (ae_Stage e) \<or> Traced (SpanStart n a) \<in> set (xc_events x)"
  by (auto simp: recordAudit_def)

lemma started_reject:
  "Traced (SpanStart n a) \<in> set (xc_events (reject w who req s code msg x)) \<Longrightarrow>
     n = ''audit.emit'' \<or> Traced (SpanStart n a) \<in> set (xc_events x)"
  by (auto simp: reject_def recordRejectedEvaluation_def Let_def)

lemma started_finish [simp]:
  "Traced (SpanStart n a) \<in> set (xc_events (finish_exchange r x)) \<longleftrightarrow> Traced (SpanStart n a) \<in> set (xc_events x)"
  by (auto simp: finish_exchange_def Let_def)

lemma started_start:
  "Traced (SpanStart n a) \<in> set (xc_events (start_exchange h w r)) \<Longrightarrow> n = ''http.server''"
  by (auto simp: start_exchange_def Let_def)

lemma decode_request_Inr:
  "decode_request w body = Inr (req, n) \<Longrightarrow> n = length body \<and> n \<le> maxBodyBytes"
  by (auto simp: decode_request_def Let_def split: decoded.splits if_splits)

text \<open>The ways an authenticated call of the evaluation handler ends.\<close>

definition admitted :: "handler \<Rightarrow> world \<Rightarrow> http_request \<Rightarrow> principal \<Rightarrow> evaluation_request \<Rightarrow> bool" where
  "admitted h w r p req \<longleftrightarrow> authenticate h w r = Inr p \<and>
     (\<exists>req0 n. decode_request w (rq_Body r) = Inr (req0, n) \<and> req = req0\<lparr>req_EncodedBytes := int n\<rparr>) \<and>
     req_RequestID req \<noteq> '''' \<and> Stage_Valid (req_Stage req) \<and> tenant_allowed p (req_TenantID req)"

lemma evaluation_cases [consumes 2, case_names denied refused failed completed]:
  assumes "wf_handler h" "route r = Serve Evaluations"
  obtains e where "authenticate h w r = Inl e" "observeHTTP h w r = finish_exchange r
      (writeError 401 ''UNAUTHENTICATED'' ''valid bearer authentication is required''
        (respond (SetHeader ''WWW-Authenticate'' ''Bearer'') (recordAudit denied_audit (start_exchange h w r))))"
  | p req s code msg where "authenticate h w r = Inr p" "s = 400 \<and> code = ''INVALID_REQUEST'' \<or> s = 403 \<and> code = ''FORBIDDEN''"
      "\<And>req'. \<not> admitted h w r p req'" "observeHTTP h w r = finish_exchange r (reject w (Some p) req s code msg (start_exchange h w r))"
  | p req e where "admitted h w r p req" "er_outcome (Evaluate (New_evaluator (ha_resolver h)) (wd_eval w) req) = EvalFailed e"
      "observeHTTP h w r = finish_exchange r (reject w (Some p) req (if is_context_end w e then 504 else 400)
         (if is_context_end w e then ''EVALUATION_DEADLINE_EXCEEDED'' else ''UNKNOWN_POLICY'')
         (error_text (lib_unicode (ev_library (wd_eval w))) e)
         (observe (map Traced (er_events (Evaluate (New_evaluator (ha_resolver h)) (wd_eval w) req))) (start_exchange h w r)))"
  | p req resp where "admitted h w r p req" "er_outcome (Evaluate (New_evaluator (ha_resolver h)) (wd_eval w) req) = Response resp"
      "observeHTTP h w r = finish_exchange r (writeJSON 200 (response_json resp) (recordCompletedEvaluation w p req resp
         (wd_ended w - wd_started w) (observe (map Traced (er_events (Evaluate (New_evaluator (ha_resolver h)) (wd_eval w) req)))
         (start_exchange h w r))))"
proof -
  have ev: "ha_evaluator h = New_evaluator (ha_resolver h)" using assms(1) by (simp add: wf_handler_def)
  have run: "observeHTTP h w r = finish_exchange r (requireAuthentication h w r (evaluate h w r) (start_exchange h w r))"
    using assms(2) by (simp add: observeHTTP_def serve_mux_def)
  show thesis
  proof (cases "authenticate h w r")
    case (Inl e)
    then show thesis using run by (intro that(1)) (simp_all add: requireAuthentication_def)
  next
    case (Inr p)
    note run2 = run[unfolded requireAuthentication_def Inr sum.case]
    have tenant: "AuthorizeTenant (ha_access h) p t = Inr () \<longleftrightarrow> tenant_allowed p t" for t
      using access.tenant_scope[OF Inr, of t] by simp
    show thesis
    proof (cases "decode_request w (rq_Body r)")
      case (Inl bad)
      then show thesis using run2 Inr by (intro that(2)[of p 400]) (simp_all add: evaluate_def admitted_def case_prod_beta)
    next
      case dec: (Inr ok)
      obtain req n where ok: "ok = (req, n)" by (cases ok)
      let ?req = "req\<lparr>req_EncodedBytes := int n\<rparr>"
      note eval = run2[unfolded evaluate_def dec ok sum.case prod.case option.case tenant]
      show thesis
      proof (cases "req_RequestID req \<noteq> '''' \<and> Stage_Valid (req_Stage req) \<and> tenant_allowed p (req_TenantID req)")
        case False
        then have none: "\<not> admitted h w r p req'" for req' by (auto simp: admitted_def dec ok)
        show thesis
        proof (cases "req_RequestID req \<noteq> '''' \<and> Stage_Valid (req_Stage req)")
          case True
          with False eval show thesis by (intro that(2)[OF Inr _ none, of 403]) simp_all
        next
          case False
          with eval show thesis by (cases "req_RequestID req = ''''") (intro that(2)[OF Inr _ none, of 400]; simp)+
        qed
      next
        case True
        then have adm: "admitted h w r p ?req" by (simp add: admitted_def Inr dec ok)
        from True eval have eval2: "observeHTTP h w r = finish_exchange r (run_evaluation h w p ?req (start_exchange h w r))"
          using tenant by simp
        show thesis
        proof (cases "er_outcome (Evaluate (New_evaluator (ha_resolver h)) (wd_eval w) ?req)")
          case (Response resp)
          with eval2 ev show thesis by (intro that(4)[OF adm]) (simp_all add: run_evaluation_def Let_def)
        next
          case (EvalFailed e)
          with eval2 ev show thesis by (intro that(3)[OF adm EvalFailed]) (simp add: run_evaluation_def Let_def)
        qed (use Evaluate_no_panic[OF assms(1)] ev in auto)
      qed
    qed
  qed
qed

lemma admitted_200:
  assumes "wf_handler h" "route r = Serve Evaluations" "sent_status (xc_writer (observeHTTP h w r)) = 200"
  obtains p req resp where "admitted h w r p req" "er_outcome (Evaluate (New_evaluator (ha_resolver h)) (wd_eval w) req) = Response resp"
    "wr_body (xc_writer (observeHTTP h w r)) = [JsonChunk (response_json resp)]"
  using assms(1,2)
proof (cases rule: evaluation_cases[of h r w])
  case (completed p req resp)
  have "wr_body (xc_writer (observeHTTP h w r)) = [JsonChunk (response_json resp)]" unfolding completed(3) by simp
  with completed(1,2) that show thesis by blast
qed (use assms(3) in \<open>auto simp: reject_def split: if_splits\<close>)

text \<open>
  A 200 answer to an evaluation request means: the caller authenticated; the whole body, of at most
  one mebibyte, is one request with an identifier and a valid stage, whose size is the length of the
  body; the principal may act for its tenant; and the body answered is the encoding of a response of
  the evaluator that applied every mandatory policy of the platform and the tenant for that stage.
\<close>

theorem evaluation_admitted:
  assumes "wf_handler h" "dispatch (rq_Method r) (rq_URI r) (rq_EscapedPath r) = Serve Evaluations"
    and "sent_status (xc_writer (observeHTTP h w r)) = 200"
  shows "\<exists>p req resp.
    Authenticate (lib_unicode (ev_library (wd_eval w))) (wd_sha w) (ha_access h) (rq_Authorization r) = Inr p \<and>
    (\<exists>req0. decode_request w (rq_Body r) = Inr (req0, length (rq_Body r)) \<and> req = req0\<lparr>req_EncodedBytes := int (length (rq_Body r))\<rparr>) \<and>
    length (rq_Body r) \<le> maxBodyBytes \<and> req_RequestID req \<noteq> '''' \<and> Stage_Valid (req_Stage req) \<and>
    tenant_allowed p (req_TenantID req) \<and>
    er_outcome (Evaluate (New_evaluator (ha_resolver h)) (wd_eval w) req) = Response resp \<and>
    wr_body (xc_writer (observeHTTP h w r)) = [JsonChunk (response_json resp)] \<and>
    (\<forall>i \<in> set (mandatory_ids (ha_resolver h) (req_TenantID req)). \<forall>c. map_of (rs_policies (ha_resolver h)) i = Some c \<and>
       cp_supports c (req_Stage req) \<longrightarrow> i \<in> set (elems (resp_AppliedPolicies resp)))"
proof -
  obtain p req resp where c: "admitted h w r p req" "er_outcome (Evaluate (New_evaluator (ha_resolver h)) (wd_eval w) req) = Response resp"
    "wr_body (xc_writer (observeHTTP h w r)) = [JsonChunk (response_json resp)]" by (rule admitted_200[OF assms])
  have wf: "wf_resolver (ha_resolver h)" using assms(1) by (simp add: wf_handler_def)
  have "\<exists>req0. decode_request w (rq_Body r) = Inr (req0, length (rq_Body r)) \<and> req = req0\<lparr>req_EncodedBytes := int (length (rq_Body r))\<rparr>"
    "length (rq_Body r) \<le> maxBodyBytes"
    using c(1) decode_request_Inr by (auto simp: admitted_def)
  moreover have "\<forall>i \<in> set (mandatory_ids (ha_resolver h) (req_TenantID req)). \<forall>k. map_of (rs_policies (ha_resolver h)) i = Some k \<and>
       cp_supports k (req_Stage req) \<longrightarrow> i \<in> set (elems (resp_AppliedPolicies resp))"
    using mandatory_in_response[OF wf c(2)] by blast
  ultimately show ?thesis using c unfolding admitted_def by blast
qed

text \<open>
  C3. Every authenticated evaluation request leaves one audit record and one observation, of the same
  outcome, whatever happens to it. The audit names the principal; it is completed exactly when the
  answer is 200; otherwise it is rejected, with the error code of the answer.
\<close>

theorem evaluation_audited:
  assumes "wf_handler h" "dispatch (rq_Method r) (rq_URI r) (rq_EscapedPath r) = Serve Evaluations"
    and "Authenticate (lib_unicode (ev_library (wd_eval w))) (wd_sha w) (ha_access h) (rq_Authorization r) = Inr p"
  shows "\<exists>a e. audits (xc_events (observeHTTP h w r)) = [a] \<and> evaluations (xc_events (observeHTTP h w r)) = [e] \<and>
    ae_Type a = ''evaluation'' \<and> ae_PrincipalID a = pr_ID p \<and> eo_Outcome e = ae_Outcome a \<and>
    (if sent_status (xc_writer (observeHTTP h w r)) = 200 then ae_Outcome a = ''completed'' \<and> ae_ErrorCode a = ''''
     else ae_Outcome a = ''rejected'' \<and> ae_Action a = '''' \<and> ae_Findings a = None \<and>
       (\<exists>msg. wr_body (xc_writer (observeHTTP h w r)) = [JsonChunk (error_json (ae_ErrorCode a) msg)]))"
  using assms(1,2)
proof (cases rule: evaluation_cases[of h r w])
  case (denied e)
  with assms(3) show ?thesis by simp
next
  case (refused p' req s code msg)
  with assms(3) show ?thesis by (auto simp: reject_def rejected_audit_def rejected_observation_def blank_audit_def)
next
  case (failed p' req e)
  then show ?thesis using assms(3) unfolding failed(3)
    by (auto simp: reject_def rejected_audit_def rejected_observation_def blank_audit_def admitted_def)
next
  case (completed p' req resp)
  then show ?thesis using assms(3) unfolding completed(3)
    by (auto simp: completed_audit_def completed_observation_def admitted_def)
qed

text \<open>
  C4. Everything in the audit record of a completed evaluation is accounted for, field by field, and none
  of it is content: the principal is the one authenticated, and the tenant one its scope allows; the
  evaluation's identifier is made of the random source or the clock alone, and the request's is a
  digest; the stage, the action, the codes and the scopes are values of fixed sets; and every policy
  and detector, category, severity and failure mode, also in the two maps of timings, is one that the
  configuration of a resolved policy gives.
\<close>

theorem audit_content_safe:
  assumes "wf_handler h" "dispatch (rq_Method r) (rq_URI r) (rq_EscapedPath r) = Serve Evaluations"
    and "audits (xc_events (observeHTTP h w r)) = [a]" "ae_Outcome a = ''completed''"
  shows "\<exists>p req ps. admitted h w r p req \<and>
    Resolve (ha_resolver h) (req_TenantID req) (gs_Profile (req_Guardrails req)) (gs_Policies (req_Guardrails req)) (req_Stage req) = Inr ps \<and>
    ae_Type a = ''evaluation'' \<and> ae_PrincipalID a = pr_ID p \<and> ae_TenantID a = req_TenantID req \<and> tenant_allowed p (ae_TenantID a) \<and>
    ae_EvaluationID a = newID (wd_eval w) 2 \<and> ae_RequestIDHash a = IdentifierDigest (wd_sha w) (req_RequestID req) \<and>
    ae_ErrorCode a = '''' \<and> Stage_Valid (ae_Stage a) \<and> ae_Action a \<in> {ActionAllow, ActionMonitor, ActionRedact, ActionBlock} \<and>
    ae_AppliedPolicies a = (if ps = [] then None else Some (map (Policy_CanonicalID \<circ> cp_Config) ps)) \<and>
    (\<forall>fs. ae_Findings a = Some fs \<longrightarrow> (\<forall>s \<in> set fs. \<exists>c \<in> set ps. \<exists>cd \<in> set (cp_Detectors c). fd_DetectorID s = det_ID (cd_Config cd) \<and>
       fd_Category s \<in> set (configured_categories (cd_Config cd)) \<and> fd_Severity s \<in> set (configured_severities (cd_Config cd)) \<and> fd_Confidence s = 1)) \<and>
    (\<forall>fs. ae_Failures a = Some fs \<longrightarrow> (\<forall>s \<in> set fs. FailureCode_Valid (fs_Code s) \<and> fs_Scope s \<in> {FailureScopePolicy, FailureScopeDetector} \<and>
       (\<exists>c \<in> set ps. fs_PolicyID s = Policy_CanonicalID (cp_Config c) \<and> fs_Mode s = spec_FailureMode (pol_Spec (cp_Config c)) \<and>
         fs_DetectorID s \<in> insert '''' ((det_ID \<circ> cd_Config) ` set (cp_Detectors c))))) \<and>
    (\<forall>ts. ae_PolicyTimingsMS a = Some ts \<longrightarrow> fst ` set ts \<subseteq> (Policy_CanonicalID \<circ> cp_Config) ` set ps) \<and>
    (\<forall>ts. ae_DetectorTimingsMS a = Some ts \<longrightarrow> fst ` set ts \<subseteq> (\<Union>c \<in> set ps. (det_ID \<circ> cd_Config) ` set (cp_Detectors c)))"
  using assms(1,2)
proof (cases rule: evaluation_cases[of h r w])
  case (completed p req resp)
  have a: "a = completed_audit w p req resp" using assms(3) unfolding completed(3) by simp
  have wf: "wf_resolver (ha_resolver h)" using assms(1) by (simp add: wf_handler_def)
  then obtain ps where ps: "request_policies (ha_resolver h) req = Inr ps" "resp_AppliedPolicies resp = append_slice None (map (Policy_CanonicalID \<circ> cp_Config) ps)"
    "resp_RequestID resp = req_RequestID req"
    "dec_Action (resp_Decision resp) \<in> {ActionAllow, ActionMonitor, ActionRedact, ActionBlock}"
    and finding: "\<And>f. f \<in> set (resp_Findings resp) \<Longrightarrow> \<exists>c \<in> set ps. \<exists>cd \<in> set (cp_Detectors c). labelled (cd_Config cd) f"
    and failure: "\<And>f. f \<in> set (resp_DetectorFailures resp) \<Longrightarrow> FailureCode_Valid (df_Code f) \<and> (\<exists>c \<in> set ps.
       df_PolicyID f = Policy_CanonicalID (cp_Config c) \<and> df_FailureMode f = spec_FailureMode (pol_Spec (cp_Config c)) \<and>
       df_DetectorID f \<in> insert '''' ((det_ID \<circ> cd_Config) ` set (cp_Detectors c)))"
    by (rule response_configured[OF _ completed(2)]) blast
  note names = response_names[OF wf completed(2) ps(1)]
  have adm: "ae_PrincipalID a = pr_ID p" "ae_TenantID a = req_TenantID req" "Stage_Valid (ae_Stage a)" "ae_ErrorCode a = ''''"
    "tenant_allowed p (ae_TenantID a)" "ae_Type a = ''evaluation''"
    using completed(1) by (simp_all add: a completed_audit_def admitted_def)
  show ?thesis
  proof (intro exI conjI allI impI ballI)
    fix fs s assume "ae_Findings a = Some fs" "s \<in> set fs"
    then obtain f where f: "f \<in> set (resp_Findings resp)" "s = summarise_finding f" by (auto simp: a completed_audit_def)
    from finding[OF f(1)] show "\<exists>c \<in> set ps. \<exists>cd \<in> set (cp_Detectors c). fd_DetectorID s = det_ID (cd_Config cd) \<and>
       fd_Category s \<in> set (configured_categories (cd_Config cd)) \<and> fd_Severity s \<in> set (configured_severities (cd_Config cd)) \<and> fd_Confidence s = 1"
      by (simp add: f(2) summarise_finding_def labelled_def)
  next
    fix fs s assume "ae_Failures a = Some fs" "s \<in> set fs"
    then obtain f where f: "f \<in> set (resp_DetectorFailures resp)" "fs_Code s = df_Code f" "fs_PolicyID s = df_PolicyID f"
      "fs_Mode s = df_FailureMode f" "fs_DetectorID s = df_DetectorID f" "fs_Scope s = df_Scope f" by (auto simp: a completed_audit_def failureSummaries_def)
    from failure[OF f(1)] show "FailureCode_Valid (fs_Code s)" "\<exists>c \<in> set ps. fs_PolicyID s = Policy_CanonicalID (cp_Config c) \<and>
       fs_Mode s = spec_FailureMode (pol_Spec (cp_Config c)) \<and> fs_DetectorID s \<in> insert '''' ((det_ID \<circ> cd_Config) ` set (cp_Detectors c))"
      unfolding f(2-5) by blast+
    from names(2)[OF f(1)] show "fs_Scope s \<in> {FailureScopePolicy, FailureScopeDetector}" by (simp add: f(6) valid_scope_def)
  next
    fix ts assume "ae_PolicyTimingsMS a = Some ts"
    then show "fst ` set ts \<subseteq> (Policy_CanonicalID \<circ> cp_Config) ` set ps"
      using names(4) by (simp add: a completed_audit_def policy_ids_def)
  next
    fix ts assume "ae_DetectorTimingsMS a = Some ts"
    then show "fst ` set ts \<subseteq> (\<Union>c \<in> set ps. (det_ID \<circ> cd_Config) ` set (cp_Detectors c))"
      using names(3) by (simp add: a completed_audit_def detector_ids_def)
  qed (use completed(1) ps adm names(1) in \<open>simp_all add: a completed_audit_def\<close>)
qed (use assms(3,4) in \<open>auto simp: reject_def rejected_audit_def denied_audit_def blank_audit_def\<close>)

text \<open>
  C2. Nothing is evaluated for a caller without the tenant: a request during which policies were resolved
  or a detector ran came from an authenticated principal whose scope allows the tenant it names.
\<close>

theorem no_evaluation_unauthorized:
  assumes "wf_handler h" "Traced (SpanStart name attrs) \<in> set (xc_events (observeHTTP h w r))"
    and "name \<in> set [''guardrails.evaluate'', ''policy.resolve'', ''detector.evaluate'']"
    and "dispatch (rq_Method r) (rq_URI r) (rq_EscapedPath r) = Serve Evaluations"
  shows "\<exists>p req. Authenticate (lib_unicode (ev_library (wd_eval w))) (wd_sha w) (ha_access h) (rq_Authorization r) = Inr p \<and>
    decode_request w (rq_Body r) = Inr (req, length (rq_Body r)) \<and> tenant_allowed p (req_TenantID req)"
  using assms(1,4)
proof (cases rule: evaluation_cases[of h r w])
  case (failed p req e)
  then show ?thesis using decode_request_Inr by (fastforce simp: admitted_def)
next
  case (completed p req resp)
  then show ?thesis using decode_request_Inr by (fastforce simp: admitted_def)
qed (use assms(2,3) in \<open>auto dest!: started_reject started_start\<close>)


section \<open>Authentication and capabilities\<close>

text \<open>
  C7. A request to a protected route that does not authenticate is answered 401 with a Bearer challenge
  and one audit record of denied access; nothing else is recorded or evaluated, and neither the body
  of the request nor the configuration of the evaluator has any influence on what happens.
\<close>

theorem unauthenticated_refused:
  assumes "dispatch (rq_Method r) (rq_URI r) (rq_EscapedPath r) = Serve e" "e = Policies \<or> e = Evaluations \<or> e = Metrics"
    and "Authenticate (lib_unicode (ev_library (wd_eval w))) (wd_sha w) (ha_access h) (rq_Authorization r) = Inl err"
  shows "sent_status (xc_writer (observeHTTP h w r)) = 401 \<and>
    map_of (wr_headers (xc_writer (observeHTTP h w r))) ''WWW-Authenticate'' = Some ''Bearer'' \<and>
    audits (xc_events (observeHTTP h w r)) = [denied_audit] \<and> evaluations (xc_events (observeHTTP h w r)) = [] \<and>
    observeHTTP (h\<lparr>ha_evaluator := el, ha_resolver := rs\<rparr>) w (r\<lparr>rq_Body := b\<rparr>) = observeHTTP h w r"
proof -
  have start: "start_exchange (h\<lparr>ha_evaluator := el, ha_resolver := rs\<rparr>) w (r\<lparr>rq_Body := b\<rparr>) = start_exchange h w r"
    by (cases "ha_observer h") (simp_all add: start_exchange_def)
  have fin: "finish_exchange (r\<lparr>rq_Body := b\<rparr>) x = finish_exchange r x" for x by (simp add: finish_exchange_def Let_def)
  show ?thesis
    using assms(2,3) by (auto simp: observeHTTP_def serve_mux_def assms(1) requireAuthentication_def start fin)
      (simp_all add: writeError_def writeJSON_def writer_defs update_conv')
qed

text \<open>
  C8. Capabilities are exact: the policy list and the metrics are served to a caller exactly when it
  authenticates as a principal with the capability configured for them.
\<close>

theorem capabilities_exact:
  assumes "ha_observer h = Service"
  shows "(dispatch (rq_Method r) (rq_URI r) (rq_EscapedPath r) = Serve Policies \<longrightarrow>
      (sent_status (xc_writer (observeHTTP h w r)) = 200 \<longleftrightarrow>
        (\<exists>p. Authenticate (lib_unicode (ev_library (wd_eval w))) (wd_sha w) (ha_access h) (rq_Authorization r) = Inr p \<and> pr_policyReader p))) \<and>
    (dispatch (rq_Method r) (rq_URI r) (rq_EscapedPath r) = Serve Metrics \<longrightarrow>
      (wr_body (xc_writer (observeHTTP h w r)) = [TextChunk (writeMetrics (wd_format w) (wd_metrics w))] \<longleftrightarrow>
        (\<exists>p. Authenticate (lib_unicode (ev_library (wd_eval w))) (wd_sha w) (ha_access h) (rq_Authorization r) = Inr p \<and> pr_metricsReader p)))"
proof (intro conjI impI)
  assume "route r = Serve Policies"
  then show "sent_status (xc_writer (observeHTTP h w r)) = 200 \<longleftrightarrow> (\<exists>p. authenticate h w r = Inr p \<and> pr_policyReader p)"
    using access.policy_scope[of "lib_unicode (ev_library (wd_eval w))" "wd_sha w" "ha_access h" "rq_Authorization r"]
    by (cases "authenticate h w r") (auto simp: observeHTTP_def serve_mux_def requireAuthentication_def policies_def forbidden_def)
next
  assume "route r = Serve Metrics"
  then show "wr_body (xc_writer (observeHTTP h w r)) = [TextChunk (writeMetrics (wd_format w) (wd_metrics w))] \<longleftrightarrow>
      (\<exists>p. authenticate h w r = Inr p \<and> pr_metricsReader p)"
    using access.metrics_scope[of "lib_unicode (ev_library (wd_eval w))" "wd_sha w" "ha_access h" "rq_Authorization r"] assms
    by (cases "authenticate h w r")
      (auto simp: observeHTTP_def serve_mux_def requireAuthentication_def serve_metrics_def forbidden_def writer_defs)
qed

section \<open>Traces and bodies\<close>

text \<open>
  C39. A valid \<open>traceparent\<close> is continued on every route: the answer carries a header that parses to the
  caller's trace identifier and flags under the service's span. An invalid one is not echoed: the
  answer's trace identifier is the fresh one.
\<close>

theorem traceparent_answered:
  assumes "wf_handler h" "ha_observer h = Service"
    and "length (wd_freshSpan w) = 16" "validLowerHex (wd_freshSpan w)" "\<not> allZero (wd_freshSpan w)"
    and "length (wd_freshTrace w) = 32" "validLowerHex (wd_freshTrace w)" "\<not> allZero (wd_freshTrace w)"
  shows "\<exists>tp. map_of (wr_headers (xc_writer (observeHTTP h w r))) ''traceparent'' = Some tp \<and>
    parseTraceparent tp = Some (case parseTraceparent (rq_Traceparent r) of
      Some t \<Rightarrow> \<lparr>tc_traceID = tc_traceID t, tc_spanID = wd_freshSpan w, tc_flags = tc_flags t\<rparr>
    | None \<Rightarrow> \<lparr>tc_traceID = wd_freshTrace w, tc_spanID = wd_freshSpan w, tc_flags = ''01''\<rparr>)"
proof -
  let ?tr = "fst (StartSpan (Some (ContinueTrace (rq_Traceparent r) (wd_freshTrace w))) (wd_freshTrace w) (wd_freshSpan w)
     (wd_started w) ''http.server'' (http_span_attrs (metricRoute (rq_Path r)) ''''))"
  have flags: "length ''01'' = 2 \<and> validLowerHex ''01''"
    by (simp add: validLowerHex_def rune_segs_ascii lower_hex_rune_def)
  have "valid_trace ?tr \<and> ?tr = (case parseTraceparent (rq_Traceparent r) of
      Some t \<Rightarrow> \<lparr>tc_traceID = tc_traceID t, tc_spanID = wd_freshSpan w, tc_flags = tc_flags t\<rparr>
    | None \<Rightarrow> \<lparr>tc_traceID = wd_freshTrace w, tc_spanID = wd_freshSpan w, tc_flags = ''01''\<rparr>)"
  proof (cases "parseTraceparent (rq_Traceparent r)")
    case None
    then show ?thesis using assms(3-8) flags by (auto simp: StartSpan_def ContinueTrace_def valid_trace_def Let_def)
  next
    case (Some t)
    from trace_valid[OF Some] have "valid_trace t" "tc_traceID t \<noteq> ''''" by (auto simp: valid_trace_def)
    then show ?thesis using Some assms(3-5) by (simp add: StartSpan_def ContinueTrace_def valid_trace_def Let_def)
  qed
  note tr = this[THEN conjunct1] and e = this[THEN conjunct2]
  have eq: "parseTraceparent (Traceparent (Some ?tr)) = Some (case parseTraceparent (rq_Traceparent r) of
      Some t \<Rightarrow> \<lparr>tc_traceID = tc_traceID t, tc_spanID = wd_freshSpan w, tc_flags = tc_flags t\<rparr>
    | None \<Rightarrow> \<lparr>tc_traceID = wd_freshTrace w, tc_spanID = wd_freshSpan w, tc_flags = ''01''\<rparr>)"
    by (rule trans[OF parse_valid[OF tr] arg_cong[OF e, of Some]])
  have "Traceparent (Some ?tr) \<noteq> ''''" using trace_ids[OF tr] by (simp add: Traceparent_def render_trace_def)
  then have "trace_header (start_exchange h w r) = Some (Traceparent (Some ?tr))"
    using assms(2) by (simp add: start_exchange_def trace_header_def new_writer_def Let_def)
  with observeHTTP_once[OF assms(1), of w r] eq show ?thesis unfolding trace_header_def by (intro exI conjI) auto
qed

text \<open>
  C40. The list of applied policies of a response is encoded as the array of the identifiers of the
  resolved policies in their order; but when no policy applies, it is encoded as null, not as an empty
  array: the slice starts nil, and only appending makes it more.
\<close>

theorem no_policies_encoded_null:
  assumes "wf_resolver rs" "er_outcome (Evaluate (New_evaluator rs) env req) = Response resp"
  shows "\<exists>fields ps. response_json resp = JObj fields \<and>
    Resolve rs (req_TenantID req) (gs_Profile (req_Guardrails req)) (gs_Policies (req_Guardrails req)) (req_Stage req) = Inr ps \<and>
    map_of fields ''applied_policies'' =
      Some (if ps = [] then JNull else JArr (map (\<lambda>c. JStr (Policy_CanonicalID (cp_Config c))) ps))"
proof -
  obtain ps where "request_policies rs req = Inr ps" "resp_AppliedPolicies resp = append_slice None (map (Policy_CanonicalID \<circ> cp_Config) ps)"
    by (rule Evaluate_steps[OF assms])
  then show ?thesis by (auto simp: response_json_def slice_json_def intro!: exI[of _ ps])
qed

text \<open>
  Routing: each route is reached by its own method and path; and a request that reaches it has the
  route's method, or \<open>HEAD\<close> for \<open>GET\<close>, and decodes to the route's path, which is the label it is
  counted under.
\<close>

theorem routes_exact:
  "dispatch (endpoint_method e) (endpoint_path e) (endpoint_path e) = Serve e \<and>
   (unescape escaped = Some path \<and> dispatch verb uri escaped = Serve e' \<longrightarrow>
     path = endpoint_path e' \<and> metricRoute path = endpoint_path e' \<and>
     (verb = endpoint_method e' \<or> verb = ''HEAD'' \<and> endpoint_method e' = ''GET''))"
proof (intro conjI impI dispatch_endpoint; elim conjE)
  assume "unescape escaped = Some path" and d: "dispatch verb uri escaped = Serve e'"
  then show path: "path = endpoint_path e'" by (rule served_path)
  then show "metricRoute path = endpoint_path e'" by simp
  show "verb = endpoint_method e' \<or> verb = ''HEAD'' \<and> endpoint_method e' = ''GET''"
    using dispatch_Serve[OF d] by (simp add: method_matches_def)
qed

section \<open>Examples\<close>

definition demo_handler :: handler where
  "demo_handler = New_handler (New_evaluator (rx_resolver ActionRedact)) (rx_resolver ActionRedact) demo_controller [Some Service]"

lemma demo_handler_wf: "wf_handler demo_handler" "ha_resolver demo_handler = rx_resolver ActionRedact"
  "ha_access demo_handler = demo_controller" "ha_observer demo_handler = Service"
  using rx_wf[of ActionRedact] by (simp_all add: wf_handler_def demo_handler_def New_handler_def)

definition demo_world :: "environment \<Rightarrow> world" where
  "demo_world env = \<lparr>wd_sha = (\<lambda>s. s), wd_decode = (\<lambda>_ _. Decoded (demo_request\<lparr>req_EncodedBytes := 0\<rparr>) 2),
     wd_redirect = (\<lambda>p. p), wd_format = (\<lambda>_. ''0''), wd_started = 0, wd_ended = 0, wd_fired = second, wd_eval = env,
     wd_freshTrace = replicate 32 (CHR ''a''), wd_freshSpan = replicate 16 (CHR ''b''), wd_metrics = no_metrics\<rparr>"

definition demo_http :: "string \<Rightarrow> endpoint \<Rightarrow> http_request" where
  "demo_http auth e = \<lparr>rq_Method = endpoint_method e, rq_URI = endpoint_path e, rq_EscapedPath = endpoint_path e,
     rq_Path = endpoint_path e, rq_Authorization = auth, rq_Traceparent = '''', rq_Body = ''{}        ''\<rparr>"

abbreviation demo_auth :: string where
  "demo_auth \<equiv> ''bearer 0123456789abcdef0123456789abcdef''"

lemma demo_route [simp]: "dispatch (rq_Method (demo_http auth e)) (rq_URI (demo_http auth e)) (rq_EscapedPath (demo_http auth e)) = Serve e"
  by (simp add: demo_http_def dispatch_endpoint)

abbreviation demo_principal :: principal where
  "demo_principal \<equiv> principal_of (hd (ac_Principals (cfg_Auth demo_config)))"

lemma demo_library_tables: "lib_unicode demo_library = ascii_tables" "ev_library idle_env = demo_library"
  by (simp_all add: demo_library_def idle_env_def)

lemma demo_authenticated: "Authenticate (lib_unicode (ev_library (wd_eval (demo_world idle_env)))) (wd_sha (demo_world idle_env))
    (ha_access demo_handler) (rq_Authorization (demo_http demo_auth e)) = Inr demo_principal"
  using demo_authenticates by (simp add: demo_world_def demo_http_def demo_handler_wf demo_library_tables)

lemma demo_denied: "Authenticate (lib_unicode (ev_library (wd_eval (demo_world idle_env)))) (wd_sha (demo_world idle_env))
    (ha_access demo_handler) (rq_Authorization (demo_http '''' e)) = Inl ErrUnauthenticated"
  by (simp add: demo_handler_wf demo_http_def demo_controller_def parseBearer_def Fields_def)

lemma demo_decode: "decode_request (demo_world env) (rq_Body (demo_http auth e)) = Inr (demo_request\<lparr>req_EncodedBytes := 0\<rparr>, 10)"
  by (simp add: decode_request_def demo_world_def demo_http_def maxBodyBytes_def json_space_def)

lemma demo_admitted: "admitted demo_handler (demo_world idle_env) (demo_http demo_auth Evaluations) demo_principal demo_request"
proof -
  have "\<exists>req0 n. Inr (demo_request\<lparr>req_EncodedBytes := 0\<rparr>, 10::nat) = (Inr (req0, n) :: (evaluation_request \<times> string, evaluation_request \<times> nat) result) \<and>
      demo_request = req0\<lparr>req_EncodedBytes := int n\<rparr>"
    by (simp add: demo_request_def)
  moreover have "req_RequestID demo_request \<noteq> ''''" "Stage_Valid (req_Stage demo_request)"
    by (simp_all add: demo_request_def Stage_Valid_def)
  moreover have "tenant_allowed demo_principal (req_TenantID demo_request)"
    by (simp add: demo_request_def demo_config_def tenant_allowed_def principal_of_def)
  ultimately show ?thesis unfolding admitted_def demo_authenticated demo_decode by blast
qed

lemma completed_200:
  assumes "wf_handler h" "route r = Serve Evaluations" "admitted h w r p req"
    and "er_outcome (Evaluate (New_evaluator (ha_resolver h)) (wd_eval w) req) = Response resp"
  shows "sent_status (xc_writer (observeHTTP h w r)) = 200 \<and>
    Traced (SpanStart ''guardrails.evaluate'' (span_attrs req '''' '''')) \<in> set (xc_events (observeHTTP h w r)) \<and>
    audits (xc_events (observeHTTP h w r)) = [completed_audit w p req resp]"
  using assms(1,2)
proof (cases rule: evaluation_cases[of h r w])
  case (failed p' req' e)
  then have "req' = req" using assms(3) by (auto simp: admitted_def)
  with failed(2) assms(4) show ?thesis by simp
next
  case (completed p' req' resp')
  then have [simp]: "req' = req" "p' = p" "resp' = resp" using assms(3,4) by (auto simp: admitted_def)
  show ?thesis unfolding completed(3)
    by (simp add: recordCompletedEvaluation_def Evaluate_def end_evaluation_def)
qed (use assms(3) in \<open>auto simp: admitted_def\<close>)

lemma demo_200:
  "sent_status (xc_writer (observeHTTP demo_handler (demo_world idle_env) (demo_http demo_auth Evaluations))) = 200"
  "Traced (SpanStart ''guardrails.evaluate'' (span_attrs demo_request '''' '''')) \<in>
     set (xc_events (observeHTTP demo_handler (demo_world idle_env) (demo_http demo_auth Evaluations)))"
proof -
  obtain resp where "er_outcome (Evaluate (New_evaluator (ha_resolver demo_handler)) (wd_eval (demo_world idle_env)) demo_request) = Response resp"
    using redact_run by (auto simp: demo_handler_wf demo_world_def)
  from completed_200[OF demo_handler_wf(1) demo_route demo_admitted this]
  show "sent_status (xc_writer (observeHTTP demo_handler (demo_world idle_env) (demo_http demo_auth Evaluations))) = 200"
    "Traced (SpanStart ''guardrails.evaluate'' (span_attrs demo_request '''' '''')) \<in>
     set (xc_events (observeHTTP demo_handler (demo_world idle_env) (demo_http demo_auth Evaluations)))" by simp_all
qed

theorem every_request_observed_witness:
  "\<not> xc_panicked (observeHTTP demo_handler (demo_world idle_env) (demo_http '''' Metrics))"
  using every_request_observed[OF demo_handler_wf(1)] by blast

theorem evaluation_admitted_witness:
  "\<exists>p. Authenticate ascii_tables (\<lambda>s. s) demo_controller demo_auth = Inr p \<and> tenant_allowed p ''demo'' \<and>
     sent_status (xc_writer (observeHTTP demo_handler (demo_world idle_env) (demo_http demo_auth Evaluations))) = 200"
proof -
  from evaluation_admitted[OF demo_handler_wf(1) demo_route demo_200(1)] demo_decode[of idle_env demo_auth Evaluations]
  have "\<exists>p. Authenticate (lib_unicode (ev_library (wd_eval (demo_world idle_env)))) (wd_sha (demo_world idle_env))
      (ha_access demo_handler) (rq_Authorization (demo_http demo_auth Evaluations)) = Inr p \<and> tenant_allowed p (req_TenantID demo_request)"
    by auto
  then show ?thesis using demo_200(1)
    by (auto simp: demo_handler_wf demo_world_def demo_http_def demo_library_tables demo_request_def)
qed

theorem evaluation_audited_witness:
  "\<exists>a. audits (xc_events (observeHTTP demo_handler (demo_world idle_env) (demo_http demo_auth Evaluations))) = [a] \<and>
     ae_Outcome a = ''completed''"
  using evaluation_audited[OF demo_handler_wf(1) demo_route demo_authenticated] demo_200(1) by auto

theorem audit_content_safe_witness:
  "\<exists>a (p :: principal) (req :: evaluation_request). audits (xc_events (observeHTTP demo_handler (demo_world idle_env) (demo_http demo_auth Evaluations))) = [a] \<and>
     ae_PrincipalID a = pr_ID p \<and> Stage_Valid (ae_Stage a) \<and> ae_RequestIDHash a = IdentifierDigest (\<lambda>s. s) (req_RequestID req)"
proof -
  obtain resp where r: "er_outcome (Evaluate (New_evaluator (ha_resolver demo_handler)) (wd_eval (demo_world idle_env)) demo_request) = Response resp"
    using redact_run by (auto simp: demo_handler_wf demo_world_def)
  let ?a = "completed_audit (demo_world idle_env) demo_principal demo_request resp"
  have au: "audits (xc_events (observeHTTP demo_handler (demo_world idle_env) (demo_http demo_auth Evaluations))) = [?a]"
    using completed_200[OF demo_handler_wf(1) demo_route demo_admitted r] by simp
  have "ae_Outcome ?a = ''completed''" by (simp add: completed_audit_def)
  from audit_content_safe[OF demo_handler_wf(1) demo_route au this] obtain p :: principal and req :: evaluation_request where
    "ae_PrincipalID ?a = pr_ID p" "Stage_Valid (ae_Stage ?a)" "ae_RequestIDHash ?a = IdentifierDigest (wd_sha (demo_world idle_env)) (req_RequestID req)"
    by (elim exE conjE)
  moreover have "wd_sha (demo_world idle_env) = (\<lambda>s. s)" by (simp add: demo_world_def)
  ultimately show ?thesis using au by metis
qed

theorem no_evaluation_unauthorized_witness:
  "\<exists>p (req :: evaluation_request). Authenticate (lib_unicode (ev_library (wd_eval (demo_world idle_env)))) (wd_sha (demo_world idle_env))
      (ha_access demo_handler) (rq_Authorization (demo_http demo_auth Evaluations)) = Inr p \<and> tenant_allowed p (req_TenantID req)"
proof -
  have "''guardrails.evaluate'' \<in> set [''guardrails.evaluate'', ''policy.resolve'', ''detector.evaluate'']" by simp
  from no_evaluation_unauthorized[OF demo_handler_wf(1) demo_200(2) this demo_route] show ?thesis by blast
qed


theorem unauthenticated_refused_witness:
  "sent_status (xc_writer (observeHTTP demo_handler (demo_world idle_env) (demo_http '''' Metrics))) = 401"
  using unauthenticated_refused[OF demo_route _ demo_denied] by blast

theorem capabilities_exact_witness:
  "sent_status (xc_writer (observeHTTP demo_handler (demo_world idle_env) (demo_http '''' Policies))) \<noteq> 200"
  using capabilities_exact[OF demo_handler_wf(4), of "demo_http '''' Policies" "demo_world idle_env"] demo_denied[of Policies] by simp

theorem traceparent_answered_witness:
  "\<exists>tp. map_of (wr_headers (xc_writer (observeHTTP demo_handler (demo_world idle_env) (demo_http '''' Live)))) ''traceparent'' = Some tp \<and>
     parseTraceparent tp \<noteq> None"
proof -
  note ev = validLowerHex_def allZero_def rune_segs_ascii_string ascii_string_def lower_hex_rune_def list_all_iff numeral_eq_Suc demo_world_def
  have "\<exists>tp. map_of (wr_headers (xc_writer (observeHTTP demo_handler (demo_world idle_env) (demo_http '''' Live)))) ''traceparent'' = Some tp \<and>
    parseTraceparent tp = Some (case parseTraceparent (rq_Traceparent (demo_http '''' Live)) of
      Some t \<Rightarrow> \<lparr>tc_traceID = tc_traceID t, tc_spanID = wd_freshSpan (demo_world idle_env), tc_flags = tc_flags t\<rparr>
    | None \<Rightarrow> \<lparr>tc_traceID = wd_freshTrace (demo_world idle_env), tc_spanID = wd_freshSpan (demo_world idle_env), tc_flags = ''01''\<rparr>)"
    by (rule traceparent_answered[OF demo_handler_wf(1,4)]) (simp_all add: ev)
  then show ?thesis by force
qed

text \<open>A request at a stage that no policy applies to.\<close>

theorem no_policies_encoded_null_witness:
  "\<exists>resp fields. er_outcome (Evaluate (New_evaluator (rx_resolver ActionRedact)) idle_env (demo_request\<lparr>req_Stage := StagePreTool\<rparr>)) = Response resp \<and>
     response_json resp = JObj fields \<and> map_of fields ''applied_policies'' = Some JNull"
proof -
  let ?req = "demo_request\<lparr>req_Stage := StagePreTool\<rparr>"
  have res: "request_policies (rx_resolver ActionRedact) ?req = Inr []"
    by (simp add: Resolve_def mandatory_ids_def profile_ids_def rx_resolver_def demo_request_def cp_supports_def supportsStage_def
      rx_compiled_def rx_spec Let_def enum_defs)
  obtain resp where r: "er_outcome (Evaluate (New_evaluator (rx_resolver ActionRedact)) idle_env ?req) = Response resp"
    using res by (simp add: run_eval idle_env_def)
  have "wf_resolver (rx_resolver ActionRedact)" by (rule rx_wf) simp
  from no_policies_encoded_null[OF this r] res r show ?thesis by auto
qed

theorem routes_exact_witness: "metricRoute ''/v1/policies'' = endpoint_path Policies"
proof -
  have "unescape ''/v1/%70olicies'' = Some ''/v1/policies''" by code_simp
  moreover have "dispatch ''HEAD'' ''/v1/%70olicies'' ''/v1/%70olicies'' = Serve Policies" by code_simp
  ultimately show ?thesis using routes_exact by blast
qed

end
