(* ===== verification/GR_Startup.thy ===== *)
theory GR_Startup
  imports GR_Api
begin

text \<open>
  The start of the service, \<open>cmd/thinkpixelgr/main.go\<close>: the environment and the command line, loading
  the configuration, building the access controller and the resolver, and wiring the handler. A
  start ends in an exit or in a server; serving connections is the business of \<open>net/http\<close>.
\<close>

section \<open>The process\<close>

text \<open>What the process is given: its environment, arguments and files, and the libraries it links.\<close>

record process =
  pe_env :: "string \<Rightarrow> string option"
  pe_args :: "string list"
  pe_read_file :: "string \<Rightarrow> (string, string) result"
  pe_unmarshal :: "string \<Rightarrow> (string, config) result"
  pe_compilers :: compilers
  pe_sha :: "string \<Rightarrow> string"

datatype start_failure =
    FlagsInvalid
  | HelpRequested
  | ConfigFailed load_error
  | AuthFailed auth_setup_error
  | ResolverFailed resolver_error

fun exit_code :: "start_failure \<Rightarrow> int" where
  "exit_code FlagsInvalid = 2"
| "exit_code HelpRequested = 0"
| "exit_code (ConfigFailed _) = 1"
| "exit_code (AuthFailed _) = 1"
| "exit_code (ResolverFailed _) = 1"

record server =
  sr_Addr :: string
  sr_Handler :: handler
  sr_ReadHeaderTimeout :: duration
  sr_ReadTimeout :: duration
  sr_WriteTimeout :: duration
  sr_IdleTimeout :: duration
  sr_debug_log :: bool

definition Getenv :: "process \<Rightarrow> string \<Rightarrow> string" where
  "Getenv pe key = (case pe_env pe key of None \<Rightarrow> '''' | Some v \<Rightarrow> v)"

definition envOr :: "process \<Rightarrow> string \<Rightarrow> string \<Rightarrow> string" where
  "envOr pe key fallback = (if Getenv pe key \<noteq> '''' then Getenv pe key else fallback)"

section \<open>The command line\<close>

text \<open>
  \<open>flag.Parse\<close> for the two string flags \<open>config\<close> and \<open>listen\<close>: parsing stops at the first argument
  that is not a flag; an unknown or malformed flag ends the process, as does a request for help.
\<close>

datatype flags = Flags string string | FlagHelp | FlagError

definition set_flag :: "string \<Rightarrow> string \<Rightarrow> string \<times> string \<Rightarrow> string \<times> string" where
  "set_flag key v vals = (if key = ''config'' then (v, snd vals) else (fst vals, v))"

fun parse_flags :: "string list \<Rightarrow> string \<times> string \<Rightarrow> flags" where
  "parse_flags [] vals = Flags (fst vals) (snd vals)"
| "parse_flags (s # args) vals =
     (if length s < 2 \<or> hd s \<noteq> CHR ''-'' \<or> s = ''--'' then Flags (fst vals) (snd vals)
      else let name = (if s ! 1 = CHR ''-'' then drop 2 s else drop 1 s);
               key = takeWhile (\<lambda>c. c \<noteq> CHR ''='') name; rest = dropWhile (\<lambda>c. c \<noteq> CHR ''='') name in
        if hd name = CHR ''-'' \<or> hd name = CHR ''='' then FlagError
        else if key \<noteq> ''config'' \<and> key \<noteq> ''listen'' then (if key = ''help'' \<or> key = ''h'' then FlagHelp else FlagError)
        else if rest \<noteq> [] then parse_flags args (set_flag key (tl rest) vals)
        else (case args of [] \<Rightarrow> FlagError | v # args' \<Rightarrow> parse_flags args' (set_flag key v vals)))"

definition command_line :: "process \<Rightarrow> flags" where
  "command_line pe = parse_flags (pe_args pe)
     (envOr pe ''THINKPIXELGR_CONFIG'' ''./configs/config.yaml'', envOr pe ''THINKPIXELGR_LISTEN'' '':8080'')"

section \<open>\<open>main\<close>\<close>

definition build_access :: "process \<Rightarrow> config \<Rightarrow> (start_failure, controller) result" where
  "build_access pe cfg = (if ac_Enabled (cfg_Auth cfg)
     then (case NewStaticBearer (pe_sha pe) (cfg_Auth cfg) (Some (pe_env pe)) of Inl e \<Rightarrow> Inl (AuthFailed e) | Inr c \<Rightarrow> Inr c)
     else Inr Disabled)"

definition build_server :: "process \<Rightarrow> string \<Rightarrow> config \<Rightarrow> (start_failure, server) result" where
  "build_server pe address cfg = res_bind (build_access pe cfg) (\<lambda>access.
     case NewResolver (pe_compilers pe) cfg of Inl e \<Rightarrow> Inl (ResolverFailed e)
     | Inr r \<Rightarrow> Inr \<lparr>sr_Addr = address, sr_Handler = New_handler (New_evaluator r) r access [Some Service],
         sr_ReadHeaderTimeout = 5 * second, sr_ReadTimeout = 10 * second, sr_WriteTimeout = 10 * second,
         sr_IdleTimeout = 60 * second, sr_debug_log = (Getenv pe ''THINKPIXELGR_LOG_LEVEL'' = ''debug'')\<rparr>)"

definition configuration :: "process \<Rightarrow> (start_failure, string \<times> config) result" where
  "configuration pe = (case command_line pe of FlagError \<Rightarrow> Inl FlagsInvalid | FlagHelp \<Rightarrow> Inl HelpRequested
     | Flags path address \<Rightarrow> (case Load (pe_read_file pe) (pe_unmarshal pe) path of
         Inl e \<Rightarrow> Inl (ConfigFailed e) | Inr cfg \<Rightarrow> Inr (address, cfg)))"

definition startup :: "process \<Rightarrow> (start_failure, server) result" where
  "startup pe = res_bind (configuration pe) (\<lambda>(address, cfg). build_server pe address cfg)"

section \<open>What a started service is\<close>

lemma startup_cases:
  assumes "startup pe = Inr srv" "configuration pe = Inr (address, cfg)"
  obtains access r where "build_access pe cfg = Inr access" "NewResolver (pe_compilers pe) cfg = Inr r"
    "sr_Handler srv = New_handler (New_evaluator r) r access [Some Service]"
  using assms by (auto simp: startup_def build_server_def elim!: res_bind_InrE split: sum.splits)

lemma started_handler:
  assumes "startup pe = Inr srv" "configuration pe = Inr (address, cfg)"
  shows "wf_handler (sr_Handler srv)" "ha_observer (sr_Handler srv) = Service"
    "build_access pe cfg = Inr (ha_access (sr_Handler srv))" "NewResolver (pe_compilers pe) cfg = Inr (ha_resolver (sr_Handler srv))"
  by (rule startup_cases[OF assms]; simp add: New_handler_def wf_handler_def NewResolver_sound)+

lemma configuration_positive: "configuration pe = Inr (address, cfg) \<Longrightarrow> list_all loaded_policy (cfg_Policies cfg)"
  by (auto simp: configuration_def Load_def list_all_iff elim!: res_bind_InrE split: flags.splits sum.splits
      dest!: res_map_InrD load_policy_positive)

text \<open>
  C30. A process that starts serves a well-formed handler: its resolver is accepted from the loaded
  configuration, its evaluator uses the same resolver, its observer is the built-in service, and its
  access controller is the static bearer one built from the configuration and the environment
  whenever authentication is enabled; the open controller appears only when it is not. Every policy
  and detector timeout in force is positive.
\<close>

theorem startup_sound:
  assumes "startup pe = Inr srv" "configuration pe = Inr (address, cfg)"
  shows "wf_handler (sr_Handler srv) \<and> ha_observer (sr_Handler srv) = Service \<and>
    NewResolver (pe_compilers pe) cfg = Inr (ha_resolver (sr_Handler srv)) \<and> list_all loaded_policy (cfg_Policies cfg) \<and>
    (if ac_Enabled (cfg_Auth cfg)
     then NewStaticBearer (pe_sha pe) (cfg_Auth cfg) (Some (pe_env pe)) = Inr (ha_access (sr_Handler srv)) \<and>
       ha_access (sr_Handler srv) \<noteq> Disabled
     else ha_access (sr_Handler srv) = Disabled)"
  using started_handler[OF assms] configuration_positive[OF assms(2)]
  by (auto simp: build_access_def NewStaticBearer_def elim!: res_bind_InrE split: if_splits sum.splits option.splits)

text \<open>
  C31. A process either serves or exits, and it exits with code 1 exactly when the configuration, the
  authentication or the policies are at fault, with 2 for a bad command line and 0 for help.
\<close>

theorem startup_exits:
  assumes "startup pe = Inl failure"
  shows "case failure of
      FlagsInvalid \<Rightarrow> exit_code failure = 2 \<and> command_line pe = FlagError
    | HelpRequested \<Rightarrow> exit_code failure = 0 \<and> command_line pe = FlagHelp
    | ConfigFailed e \<Rightarrow> exit_code failure = 1 \<and> (\<exists>path address. command_line pe = Flags path address \<and>
        Load (pe_read_file pe) (pe_unmarshal pe) path = Inl e)
    | AuthFailed e \<Rightarrow> exit_code failure = 1 \<and> (\<exists>address cfg. configuration pe = Inr (address, cfg) \<and> ac_Enabled (cfg_Auth cfg) \<and>
        NewStaticBearer (pe_sha pe) (cfg_Auth cfg) (Some (pe_env pe)) = Inl e)
    | ResolverFailed e \<Rightarrow> exit_code failure = 1 \<and> (\<exists>address cfg. configuration pe = Inr (address, cfg) \<and>
        NewResolver (pe_compilers pe) cfg = Inl e)"
proof (cases "configuration pe")
  case (Inl e)
  with assms show ?thesis
    by (auto simp: startup_def configuration_def split: flags.splits sum.splits)
next
  case (Inr ac)
  with assms show ?thesis
    by (cases ac) (auto simp: startup_def build_server_def build_access_def res_bind_def split: if_splits sum.splits)
qed

section \<open>Examples\<close>

definition demo_process :: process where
  "demo_process = \<lparr>pe_env = demo_env, pe_args = [''-listen=:9090''], pe_read_file = (\<lambda>_. Inr ''''),
     pe_unmarshal = (\<lambda>_. Inr demo_config), pe_compilers = no_compilers, pe_sha = (\<lambda>s. s)\<rparr>"

lemma demo_loaded: "Load (\<lambda>_. Inr '''') (\<lambda>_. Inr demo_config) path = Inr demo_config"
proof -
  have t: "ParseDuration ''25ms'' = Some (25 * millisecond)" "ParseDuration ''10ms'' = Some (10 * millisecond)" by code_simp+
  show ?thesis by (simp add: Load_def demo_defs load_policy_def load_timeout_def load_detector_def t)
qed

lemma demo_flags: "command_line demo_process = Flags ''./configs/config.yaml'' '':9090''"
  by (simp add: command_line_def demo_process_def envOr_def Getenv_def demo_env_def set_flag_def)

lemma demo_configuration: "configuration demo_process = Inr ('':9090'', demo_config)"
  by (simp add: configuration_def demo_flags) (simp add: demo_process_def demo_loaded)

definition demo_server :: server where
  "demo_server = \<lparr>sr_Addr = '':9090'', sr_Handler = New_handler (New_evaluator demo_resolver) demo_resolver demo_controller [Some Service],
     sr_ReadHeaderTimeout = 5 * second, sr_ReadTimeout = 10 * second, sr_WriteTimeout = 10 * second,
     sr_IdleTimeout = 60 * second, sr_debug_log = False\<rparr>"

lemma demo_started: "startup demo_process = Inr demo_server"
proof -
  have "build_access demo_process demo_config = Inr demo_controller"
    using demo_controller_eq by (simp add: build_access_def demo_process_def demo_config_def)
  then show ?thesis
    by (simp add: startup_def demo_configuration build_server_def demo_server_def)
      (simp add: demo_process_def demo_resolver_eq Getenv_def demo_env_def)
qed

theorem startup_sound_witness: "wf_handler (sr_Handler demo_server) \<and> ha_access (sr_Handler demo_server) \<noteq> Disabled"
  using startup_sound[OF demo_started demo_configuration] by (simp add: demo_config_def)

theorem startup_exits_witness: "startup (demo_process\<lparr>pe_args := [''-port=1'']\<rparr>) = Inl FlagsInvalid \<and> exit_code FlagsInvalid = 2"
proof -
  have "startup (demo_process\<lparr>pe_args := [''-port=1'']\<rparr>) = Inl FlagsInvalid"
    by (simp add: startup_def configuration_def command_line_def)
  then show ?thesis using startup_exits[of "demo_process\<lparr>pe_args := [''-port=1'']\<rparr>" FlagsInvalid] by simp
qed

end
