(* ===== verification/GR_Service.thy ===== *)
theory GR_Service
  imports GR_Api
begin

text \<open>
  The built-in observer at work: the calls a request makes on it are replayed on the state of the
  \<open>Service\<close> of \<open>internal/observability/observability.go\<close>, its metrics and its log. The contexts that
  carry the current span are passed down the calls of the code, each span ending before the one it
  was started under, so the spans of a request form a stack (\<open>sc_open\<close>); the bottom is the context
  that \<open>ContinueTrace\<close> made. Span records are logged at debug level, audit records at info level.
\<close>

section \<open>The state of the service\<close>

datatype log_level = LevelDebug | LevelInfo

record service =
  sv_metrics :: metrics
  sv_log :: "(log_level \<times> log_attrs) list"

record scope =
  sc_base :: trace_context
  sc_open :: "log_span list"
  sc_drawn :: nat
  sc_tick :: nat

definition new_scope :: "trace_context \<Rightarrow> scope" where
  "new_scope base = \<lparr>sc_base = base, sc_open = [], sc_drawn = 0, sc_tick = 0\<rparr>"

text \<open>The trace of the current context.\<close>

definition current_trace :: "scope \<Rightarrow> trace_context" where
  "current_trace sc = (case sc_open sc of [] \<Rightarrow> sc_base sc | s # _ \<Rightarrow> ls_trace s)"

definition append_log :: "log_level \<Rightarrow> log_attrs list \<Rightarrow> service \<Rightarrow> service" where
  "append_log level recs sv = sv\<lparr>sv_log := sv_log sv @ map (Pair level) recs\<rparr>"

text \<open>One call on the observer, given the identifiers it may draw (two numbered for each span, one for a
  missing trace) and the clock it reads.\<close>

fun service_step :: "(nat \<Rightarrow> string) \<Rightarrow> (nat \<Rightarrow> int) \<Rightarrow> service \<times> scope \<Rightarrow> obs_event \<Rightarrow> service \<times> scope" where
  "service_step ids now (sv, sc) (Traced (SpanStart name attrs)) =
     (let (_, s) = StartSpan (Some (current_trace sc)) (ids (sc_drawn sc)) (ids (Suc (sc_drawn sc))) (now (sc_tick sc)) name attrs in
      (sv, sc\<lparr>sc_open := s # sc_open sc, sc_drawn := sc_drawn sc + 2, sc_tick := Suc (sc_tick sc)\<rparr>))"
| "service_step ids now (sv, sc) (Traced (SpanEnd name status)) =
     (case sc_open sc of [] \<Rightarrow> (sv, sc)
      | s # rest \<Rightarrow> (append_log LevelDebug (fst (EndSpan s (now (sc_tick sc)) status)) sv,
          sc\<lparr>sc_open := rest, sc_tick := Suc (sc_tick sc)\<rparr>))"
| "service_step ids now (sv, sc) (Audited e) = (append_log LevelInfo [RecordAudit (Some (current_trace sc)) e] sv, sc)"
| "service_step ids now (sv, sc) (Evaluated e) = (sv\<lparr>sv_metrics := RecordEvaluation (sv_metrics sv) e\<rparr>, sc)"
| "service_step ids now (sv, sc) (Served e) = (sv\<lparr>sv_metrics := RecordHTTP (sv_metrics sv) e\<rparr>, sc)"

definition service_run :: "(nat \<Rightarrow> string) \<Rightarrow> (nat \<Rightarrow> int) \<Rightarrow> service \<times> scope \<Rightarrow> obs_event list \<Rightarrow> service \<times> scope" where
  "service_run ids now = foldl (service_step ids now)"

text \<open>What reaches the output at the configured level.\<close>

definition written :: "bool \<Rightarrow> (log_level \<times> log_attrs) list \<Rightarrow> log_attrs list" where
  "written debug entries = map snd (filter (\<lambda>(level, _). debug \<or> level = LevelInfo) entries)"

section \<open>Metrics\<close>

lemma record_commute: "RecordHTTP (RecordEvaluation m e) o' = RecordEvaluation (RecordHTTP m o') e"
  by (simp add: RecordHTTP_def RecordEvaluation_def)

lemma record_commute_fold: "foldl RecordHTTP (RecordEvaluation m e) os = RecordEvaluation (foldl RecordHTTP m os) e"
  by (induction os arbitrary: m) (simp_all add: record_commute)

lemma service_run_metrics:
  "sv_metrics (fst (service_run ids now (sv, sc) evs)) =
     foldl RecordEvaluation (foldl RecordHTTP (sv_metrics sv) (services evs)) (evaluations evs)"
proof (induction evs arbitrary: sv sc)
  case (Cons e evs)
  obtain sv' sc' where st: "service_step ids now (sv, sc) e = (sv', sc')" by (meson surj_pair)
  have "service_run ids now (sv, sc) (e # evs) = service_run ids now (sv', sc') evs" by (simp add: service_run_def st)
  with Cons.IH[of sv' sc'] st show ?case
    by (cases "(ids, now, (sv, sc), e)" rule: service_step.cases)
      (auto simp: Let_def append_log_def record_commute_fold split: list.splits prod.splits)
qed (simp add: service_run_def)

section \<open>The log of a request\<close>

definition record_id :: "log_attrs \<Rightarrow> log_value option" where "record_id attrs = map_of attrs ''span_id''"
definition record_parent :: "log_attrs \<Rightarrow> log_value option" where "record_parent attrs = map_of attrs ''parent_span_id''"
definition record_trace :: "log_attrs \<Rightarrow> log_value option" where "record_trace attrs = map_of attrs ''trace_id''"

lemma span_log_lookup:
  "record_id (span_log s t st) = Some (LString (tc_spanID (ls_trace s)))"
  "record_trace (span_log s t st) = Some (LString (tc_traceID (ls_trace s)))"
  "record_parent (span_log s t st) = (if ls_parentID s = '''' then None else Some (LString (ls_parentID s)))"
  by (simp_all add: span_log_def appendNonEmpty_def record_id_def record_parent_def record_trace_def)

lemma RecordAudit_trace: "TraceID tr \<noteq> '''' \<Longrightarrow> record_trace (RecordAudit tr e) = Some (LString (TraceID tr))"
  by (simp add: RecordAudit_def appendNonEmpty_def record_trace_def)

lemma RecordAudit_cong: "TraceID tr = TraceID tr' \<Longrightarrow> RecordAudit tr e = RecordAudit tr' e"
  by (simp add: RecordAudit_def)

lemma StartSpan_child:
  assumes "tc_traceID parent \<noteq> ''''" "(c, s) = StartSpan (Some parent) ft fs t name attrs"
  shows "ls_trace s = \<lparr>tc_traceID = tc_traceID parent, tc_spanID = fs, tc_flags = tc_flags parent\<rparr>" "ls_parentID s = tc_spanID parent"
    "ls_name s = name" "\<not> ls_ended s"
  using assms by (simp_all add: StartSpan_def Let_def)

text \<open>The spans open: all of the base's trace, each the child of the next, the last a child of the base.\<close>

fun chained :: "trace_context \<Rightarrow> log_span list \<Rightarrow> bool" where
  "chained base [] \<longleftrightarrow> True"
| "chained base (s # rest) \<longleftrightarrow> tc_traceID (ls_trace s) = tc_traceID base \<and> \<not> ls_ended s \<and>
     ls_parentID s = tc_spanID (case rest of [] \<Rightarrow> base | s' # _ \<Rightarrow> ls_trace s') \<and> chained base rest"

lemma current_chained: "chained (sc_base sc) (sc_open sc) \<Longrightarrow> tc_traceID (current_trace sc) = tc_traceID (sc_base sc)"
  by (auto simp: current_trace_def split: list.split)

text \<open>
  How the spans of a trace are nested. The spans are numbered in the order they start; for each span,
  in the order they end, its number and that of the span it was started in.
\<close>

fun nest :: "nat \<Rightarrow> nat list \<Rightarrow> trace_event list \<Rightarrow> (nat \<times> nat option) list" where
  "nest n ks [] = []"
| "nest n ks (SpanStart name attrs # es) = nest (Suc n) (n # ks) es"
| "nest n [] (SpanEnd name status # es) = nest n [] es"
| "nest n (k # ks) (SpanEnd name status # es) = (k, case ks of [] \<Rightarrow> None | j # _ \<Rightarrow> Some j) # nest n ks es"

lemma nest_numbers: "fst ` set (nest n ks es) \<subseteq> set ks \<union> {n..}"
  by (induction n ks es rule: nest.induct) (auto simp: image_subset_iff)

lemma nest_distinct: "distinct ks \<Longrightarrow> \<forall>k \<in> set ks. k < n \<Longrightarrow> distinct (map fst (nest n ks es))"
proof (induction n ks es rule: nest.induct)
  case (2 n ks name attrs es)
  then have "distinct (n # ks)" "\<forall>k \<in> set (n # ks). k < Suc n" by (auto intro: less_SucI)
  from "2.IH"[OF this] show ?case by simp
next
  case (4 n k ks name status es)
  have "k \<notin> fst ` set (nest n ks es)" using nest_numbers[of n ks es] "4.prems" by auto
  with 4 show ?case by (simp del: set_map add: image_set[symmetric])
qed auto

lemma nest_all_end: "open_spans names es = Some [] \<Longrightarrow> length names = length ks \<Longrightarrow> set ks \<subseteq> fst ` set (nest n ks es)"
proof (induction n ks es arbitrary: names rule: nest.induct)
  case (4 n k ks name status es)
  then obtain nm names' where "names = nm # names'" by (cases names) auto
  with 4 show ?case by (auto split: if_splits)
qed (auto split: if_splits)

text \<open>A span ends after those started in it.\<close>

lemma nest_later:
  "open_spans names es = Some [] \<Longrightarrow> length names = length ks \<Longrightarrow> i < length (nest n ks es) \<Longrightarrow> nest n ks es ! i = (k, Some j) \<Longrightarrow>
     \<exists>i' > i. i' < length (nest n ks es) \<and> fst (nest n ks es ! i') = j"
proof (induction n ks es arbitrary: names i rule: nest.induct)
  case (4 n k' ks name status es)
  then obtain nm names' where names: "names = nm # names'" by (cases names) auto
  then have rest: "open_spans names' es = Some []" "length names' = length ks" using 4 by (auto split: if_splits)
  show ?case
  proof (cases i)
    case 0
    then have "j \<in> set ks" using "4.prems"(4) by (auto split: list.splits)
    with nest_all_end[OF rest, of n] obtain sp where "sp \<in> set (nest n ks es)" "fst sp = j" by auto
    then obtain i' where "i' < length (nest n ks es)" "fst (nest n ks es ! i') = j" by (auto simp: in_set_conv_nth)
    then show ?thesis using 0 by (intro exI[of _ "Suc i'"]) simp
  next
    case (Suc i0)
    with "4.IH"[OF rest, of i0] "4.prems"(3,4) obtain i' where "i' > i0" "i' < length (nest n ks es)" "fst (nest n ks es ! i') = j" by auto
    then show ?thesis using Suc by (intro exI[of _ "Suc i'"]) simp
  qed
next
  case (3 n name status es)
  then show ?case by (cases names) auto
qed auto

text \<open>The span records of a log, and what the one of a span so nested says. Span \<open>k\<close> is given the
  identifier drawn at \<open>2 k + 1\<close>.\<close>

definition span_records :: "(log_level \<times> log_attrs) list \<Rightarrow> log_attrs list" where
  "span_records recs = map snd (filter (\<lambda>(level, _). level = LevelDebug) recs)"

definition parent_id :: "(nat \<Rightarrow> string) \<Rightarrow> trace_context \<Rightarrow> nat option \<Rightarrow> string" where
  "parent_id ids base par = (case par of None \<Rightarrow> tc_spanID base | Some j \<Rightarrow> ids (2 * j + 1))"

definition described :: "(nat \<Rightarrow> string) \<Rightarrow> trace_context \<Rightarrow> nat \<times> nat option \<Rightarrow> log_attrs \<Rightarrow> bool" where
  "described ids base sp rec \<longleftrightarrow> record_id rec = Some (LString (ids (2 * fst sp + 1))) \<and>
     record_parent rec = (if parent_id ids base (snd sp) = '''' then None else Some (LString (parent_id ids base (snd sp))))"

definition numbered :: "(nat \<Rightarrow> string) \<Rightarrow> nat list \<Rightarrow> log_span list \<Rightarrow> bool" where
  "numbered ids ks spans \<longleftrightarrow> list_all2 (\<lambda>k s. tc_spanID (ls_trace s) = ids (2 * k + 1)) ks spans"

lemma span_records_append: "span_records (xs @ ys) = span_records xs @ span_records ys" "span_records [] = []"
  by (simp_all add: span_records_def)

lemma written_append: "written debug (xs @ ys) = written debug xs @ written debug ys"
  by (simp add: written_def)

text \<open>One call: the spans open, the audit record written, the trace it is in.\<close>

lemma service_step_log:
  assumes "chained (sc_base sc) (sc_open sc)" "tc_traceID (sc_base sc) \<noteq> ''''"
    and "open_spans (map ls_name (sc_open sc)) (trace_of e) = Some stack'" "service_step ids now (sv, sc) e = (sv', sc')"
  shows "sc_base sc' = sc_base sc \<and> chained (sc_base sc) (sc_open sc') \<and> map ls_name (sc_open sc') = stack' \<and>
    (\<exists>recs. sv_log sv' = sv_log sv @ recs \<and> (\<forall>(level, rec) \<in> set recs. record_trace rec = Some (LString (tc_traceID (sc_base sc)))) \<and>
      written False recs = map (RecordAudit (Some (sc_base sc))) (audit_of e))"
proof (cases "(ids, now, (sv, sc), e)" rule: service_step.cases)
  case (1 ids' now' sv1 sc1 name attrs)
  then have e: "e = Traced (SpanStart name attrs)" by simp
  obtain c s where s: "(c, s) = StartSpan (Some (current_trace sc)) (ids (sc_drawn sc)) (ids (Suc (sc_drawn sc))) (now (sc_tick sc)) name attrs"
    by (metis surj_pair)
  have "tc_traceID (current_trace sc) \<noteq> ''''" using assms(1,2) current_chained by simp
  note child = StartSpan_child[OF this s]
  have st: "sv' = sv" "sc' = sc\<lparr>sc_open := s # sc_open sc, sc_drawn := sc_drawn sc + 2, sc_tick := Suc (sc_tick sc)\<rparr>"
    using assms(4) by (simp_all add: e s[symmetric])
  have "chained (sc_base sc) (s # sc_open sc)"
    using assms(1) child current_chained[OF assms(1)] by (simp add: current_trace_def)
  then show ?thesis using assms(3) child(3) by (auto simp: st e written_def)
next
  case (2 ids' now' sv1 sc1 name status)
  then have e: "e = Traced (SpanEnd name status)" by simp
  with assms(3) obtain s rest where o: "sc_open sc = s # rest" "ls_name s = name" "stack' = map ls_name rest"
    by (auto split: list.splits if_splits)
  have st: "sv' = append_log LevelDebug [span_log s (now (sc_tick sc)) status] sv" "sc' = sc\<lparr>sc_open := rest, sc_tick := Suc (sc_tick sc)\<rparr>"
    using assms(1,4) by (auto simp: e o EndSpan_def)
  then show ?thesis using assms(1) by (auto simp: st e o append_log_def written_def span_log_lookup)
next
  case (3 ids' now' sv1 sc1 a)
  then have e: "e = Audited a" by simp
  have tid: "TraceID (Some (current_trace sc)) = tc_traceID (sc_base sc)" using current_chained[OF assms(1)] by (simp add: TraceID_def)
  have st: "sv' = append_log LevelInfo [RecordAudit (Some (current_trace sc)) a] sv" "sc' = sc" using assms(4) by (auto simp: e)
  have "RecordAudit (Some (current_trace sc)) a = RecordAudit (Some (sc_base sc)) a"
    by (rule RecordAudit_cong) (simp add: tid, simp add: TraceID_def)
  then show ?thesis using assms(1-3) tid RecordAudit_trace[of "Some (current_trace sc)" a] by (auto simp: st e append_log_def written_def)
qed (use assms in \<open>auto simp: written_def\<close>)

text \<open>One call: how the spans it starts or logs are nested.\<close>

lemma service_step_nest:
  assumes "chained (sc_base sc) (sc_open sc)" "tc_traceID (sc_base sc) \<noteq> ''''"
    and "open_spans (map ls_name (sc_open sc)) (trace_of e) = Some stack'" "service_step ids now (sv, sc) e = (sv', sc')"
    and "numbered ids ks (sc_open sc)" "sc_drawn sc = 2 * n"
  obtains recs nested ks' n' where "sv_log sv' = sv_log sv @ recs" "list_all2 (described ids (sc_base sc)) nested (span_records recs)"
    "numbered ids ks' (sc_open sc')" "sc_drawn sc' = 2 * n'" "\<And>es. nest n ks (trace_of e @ es) = nested @ nest n' ks' es"
proof (cases "(ids, now, (sv, sc), e)" rule: service_step.cases)
  case (1 ids' now' sv1 sc1 name attrs)
  then have e: "e = Traced (SpanStart name attrs)" by simp
  obtain c s where s: "(c, s) = StartSpan (Some (current_trace sc)) (ids (sc_drawn sc)) (ids (Suc (sc_drawn sc))) (now (sc_tick sc)) name attrs"
    by (metis surj_pair)
  have "tc_traceID (current_trace sc) \<noteq> ''''" using assms(1,2) current_chained by simp
  note child = StartSpan_child[OF this s]
  have st: "sv' = sv" "sc' = sc\<lparr>sc_open := s # sc_open sc, sc_drawn := sc_drawn sc + 2, sc_tick := Suc (sc_tick sc)\<rparr>"
    using assms(4) by (simp_all add: e s[symmetric])
  show thesis
    by (rule that[of "[]" "[]" "n # ks" "Suc n"]) (use assms(5,6) child in \<open>simp_all add: st e span_records_def numbered_def\<close>)
next
  case (2 ids' now' sv1 sc1 name status)
  then have e: "e = Traced (SpanEnd name status)" by simp
  with assms(3) obtain s rest where o: "sc_open sc = s # rest" "ls_name s = name" "stack' = map ls_name rest"
    by (auto split: list.splits if_splits)
  with assms(5) obtain k ks0 where ks: "ks = k # ks0" "tc_spanID (ls_trace s) = ids (2 * k + 1)" "numbered ids ks0 rest"
    by (auto simp: numbered_def list_all2_Cons2)
  have st: "sv' = append_log LevelDebug [span_log s (now (sc_tick sc)) status] sv" "sc' = sc\<lparr>sc_open := rest, sc_tick := Suc (sc_tick sc)\<rparr>"
    using assms(1,4) by (auto simp: e o EndSpan_def)
  have "ls_parentID s = parent_id ids (sc_base sc) (case ks0 of [] \<Rightarrow> None | j # _ \<Rightarrow> Some j)"
    using assms(1) ks(3) by (cases ks0; cases rest) (auto simp: o parent_id_def numbered_def)
  then have "described ids (sc_base sc) (k, case ks0 of [] \<Rightarrow> None | j # _ \<Rightarrow> Some j) (span_log s (now (sc_tick sc)) status)"
    by (simp add: described_def span_log_lookup ks(2))
  then show thesis
    by (intro that[of "[(LevelDebug, span_log s (now (sc_tick sc)) status)]" "[(k, case ks0 of [] \<Rightarrow> None | j # _ \<Rightarrow> Some j)]" ks0 n])
      (use ks assms(6) in \<open>simp_all add: st e append_log_def span_records_def\<close>)
next
  case (3 ids' now' sv1 sc1 a)
  then show thesis using assms(4-6)
    by (intro that[of "[(LevelInfo, RecordAudit (Some (current_trace sc)) a)]" "[]" ks n]) (auto simp: append_log_def span_records_def)
next
  case (4 ids' now' sv1 sc1 o')
  then show thesis using assms(4-6) by (intro that[of "[]" "[]" ks n]) (auto simp: span_records_def)
next
  case (5 ids' now' sv1 sc1 o')
  then show thesis using assms(4-6) by (intro that[of "[]" "[]" ks n]) (auto simp: span_records_def)
qed

lemma service_run_log:
  assumes "chained (sc_base sc) (sc_open sc)" "tc_traceID (sc_base sc) \<noteq> ''''"
    and "open_spans (map ls_name (sc_open sc)) (traces evs) = Some stack'" "service_run ids now (sv, sc) evs = (sv', sc')"
    and "numbered ids ks (sc_open sc)" "sc_drawn sc = 2 * n"
  shows "map ls_name (sc_open sc') = stack' \<and>
    (\<exists>recs. sv_log sv' = sv_log sv @ recs \<and> (\<forall>(level, rec) \<in> set recs. record_trace rec = Some (LString (tc_traceID (sc_base sc)))) \<and>
      written False recs = map (RecordAudit (Some (sc_base sc))) (audits evs) \<and>
      list_all2 (described ids (sc_base sc)) (nest n ks (traces evs)) (span_records recs))"
  using assms
proof (induction evs arbitrary: sv sc ks n)
  case Nil
  then show ?case by (auto simp: service_run_def written_def span_records_def)
next
  case (Cons e evs)
  obtain sv1 sc1 where st: "service_step ids now (sv, sc) e = (sv1, sc1)" by (meson surj_pair)
  from Cons.prems(3) obtain stack1 where o: "open_spans (map ls_name (sc_open sc)) (trace_of e) = Some stack1"
    "open_spans stack1 (traces evs) = Some stack'" by (auto simp: open_spans_append split: option.splits)
  from service_step_log[OF Cons.prems(1,2) o(1) st] obtain r1 where
    one: "sc_base sc1 = sc_base sc" "chained (sc_base sc) (sc_open sc1)" "map ls_name (sc_open sc1) = stack1" "sv_log sv1 = sv_log sv @ r1"
    "\<forall>(level, rec) \<in> set r1. record_trace rec = Some (LString (tc_traceID (sc_base sc)))"
    "written False r1 = map (RecordAudit (Some (sc_base sc))) (audit_of e)" by auto
  obtain nested ks' n' where nst: "list_all2 (described ids (sc_base sc)) nested (span_records r1)" "numbered ids ks' (sc_open sc1)"
    "sc_drawn sc1 = 2 * n'" "nest n ks (trace_of e @ traces evs) = nested @ nest n' ks' (traces evs)"
    by (rule service_step_nest[OF Cons.prems(1,2) o(1) st Cons.prems(5,6)]) (use one(4) in auto)
  have run: "service_run ids now (sv1, sc1) evs = (sv', sc')" using Cons.prems(4) st by (simp add: service_run_def)
  from Cons.IH[OF _ _ _ run nst(2,3)] one o(2) Cons.prems(2) obtain r2 where
    two: "map ls_name (sc_open sc') = stack'" "sv_log sv' = (sv_log sv @ r1) @ r2"
    "\<forall>(level, rec) \<in> set r2. record_trace rec = Some (LString (tc_traceID (sc_base sc)))"
    "written False r2 = map (RecordAudit (Some (sc_base sc))) (audits evs)"
    "list_all2 (described ids (sc_base sc)) (nest n' ks' (traces evs)) (span_records r2)"
    by auto
  have "traces (e # evs) = trace_of e @ traces evs" "audits (e # evs) = audit_of e @ audits evs" by simp_all
  with one(5,6) two nst(1,4) show ?case
    by (intro conjI exI[of _ "r1 @ r2"]) (auto simp: written_append span_records_append intro: list_all2_appendI)
qed

text \<open>
  C32. What the built-in service keeps of a request. All its records carry the trace identifier of the
  request's trace. A record is logged for each span, in the order the spans end, and its parent is the
  span it was started in, or the caller's span for an outermost one. With identifiers that do not
  repeat, these records form a tree with the caller's span as its root: no two have the same
  identifier, and the parent of each is the root or has its own record later in the log, so there is
  no cycle. No span stays open. At info level the log gains exactly the request's audit records. The
  metrics gain its observations, and its one HTTP observation.
\<close>

theorem request_log_is_a_tree:
  assumes "wf_handler h" "tc_traceID base \<noteq> ''''"
    and "service_run ids now (sv, new_scope base) (xc_events (observeHTTP h w r)) = (sv', sc')"
    and "inj ids" "'''' \<notin> range ids" "tc_spanID base \<notin> range ids"
  shows "sc_open sc' = [] \<and>
    sv_metrics sv' = foldl RecordEvaluation (RecordHTTP (sv_metrics sv) \<lparr>ho_Method = rq_Method r, ho_Route = metricRoute (rq_Path r),
      ho_Status = sent_status (xc_writer (observeHTTP h w r))\<rparr>) (evaluations (xc_events (observeHTTP h w r))) \<and>
    (\<exists>recs. sv_log sv' = sv_log sv @ recs \<and>
      written False recs = map (RecordAudit (Some base)) (audits (xc_events (observeHTTP h w r))) \<and>
      (\<forall>(level, rec) \<in> set recs. record_trace rec = Some (LString (tc_traceID base))) \<and>
      list_all2 (described ids base) (nest 0 [] (traces (xc_events (observeHTTP h w r)))) (span_records recs) \<and>
      distinct (map record_id (span_records recs)) \<and> Some (LString (tc_spanID base)) \<notin> record_id ` set (span_records recs) \<and>
      (\<forall>i < length (span_records recs).
        record_parent (span_records recs ! i) = (if tc_spanID base = '''' then None else Some (LString (tc_spanID base))) \<or>
        (\<exists>j > i. j < length (span_records recs) \<and> record_parent (span_records recs ! i) = record_id (span_records recs ! j))))"
proof -
  let ?evs = "xc_events (observeHTTP h w r)"
  let ?nest = "nest 0 [] (traces ?evs)"
  note once = observeHTTP_once[OF assms(1), of w r]
  from once have bal: "open_spans [] (traces ?evs) = Some []" by (simp add: balanced_def)
  have "sc_open sc' = [] \<and> (\<exists>recs. sv_log sv' = sv_log sv @ recs \<and> (\<forall>(level, rec) \<in> set recs. record_trace rec = Some (LString (tc_traceID base))) \<and>
      written False recs = map (RecordAudit (Some base)) (audits ?evs) \<and> list_all2 (described ids base) ?nest (span_records recs))"
    using service_run_log[OF _ _ _ assms(3), of "[]" "[]" 0] bal assms(2) by (simp add: new_scope_def numbered_def)
  then obtain recs where closed: "sc_open sc' = []" and recs: "sv_log sv' = sv_log sv @ recs"
    "\<forall>(level, rec) \<in> set recs. record_trace rec = Some (LString (tc_traceID base))"
    "written False recs = map (RecordAudit (Some base)) (audits ?evs)" and desc: "list_all2 (described ids base) ?nest (span_records recs)"
    by (elim conjE exE)
  have len: "length ?nest = length (span_records recs)" using desc by (rule list_all2_lengthD)
  have nth: "described ids base (?nest ! i) (span_records recs ! i)" if "i < length (span_records recs)" for i
    using list_all2_nthD[OF desc] that len by simp
  have ids: "map record_id (span_records recs) = map (\<lambda>k. Some (LString (ids (2 * k + 1)))) (map fst ?nest)"
    by (rule nth_equalityI) (use nth len in \<open>auto simp: described_def\<close>)
  have "distinct (map fst ?nest)" by (rule nest_distinct) simp_all
  moreover have "inj (\<lambda>k. Some (LString (ids (2 * k + 1))))" using assms(4) by (auto intro!: injI dest: injD)
  ultimately have "distinct (map record_id (span_records recs))" unfolding ids by (metis distinct_map inj_on_subset subset_UNIV)
  moreover have "Some (LString (tc_spanID base)) \<notin> record_id ` set (span_records recs)"
    using assms(6) arg_cong[OF ids, of set] by auto
  moreover have "record_parent (span_records recs ! i) = (if tc_spanID base = '''' then None else Some (LString (tc_spanID base))) \<or>
      (\<exists>j > i. j < length (span_records recs) \<and> record_parent (span_records recs ! i) = record_id (span_records recs ! j))"
    if i: "i < length (span_records recs)" for i
  proof -
    obtain k par where sp: "?nest ! i = (k, par)" by (meson surj_pair)
    show ?thesis
    proof (cases par)
      case None
      then show ?thesis using nth[OF i] by (simp add: described_def sp parent_id_def)
    next
      case (Some j)
      obtain i' where i': "i' > i" "i' < length ?nest" "fst (?nest ! i') = j"
        using nest_later[OF bal _ _ sp[unfolded Some]] i len by auto
      have "ids (2 * j + 1) \<noteq> ''''" using assms(5) by (metis rangeI)
      then have "record_parent (span_records recs ! i) = record_id (span_records recs ! i')"
        using nth[OF i] nth[of i'] i' len by (simp add: described_def sp Some parent_id_def)
      with i' len show ?thesis by auto
    qed
  qed
  moreover have "sv_metrics sv' = foldl RecordEvaluation (foldl RecordHTTP (sv_metrics sv) (services ?evs)) (evaluations ?evs)"
    using service_run_metrics[of ids now sv "new_scope base" ?evs] assms(3) by simp
  ultimately show ?thesis using once closed recs desc by (intro conjI exI[of _ recs]) simp_all
qed

theorem request_log_is_a_tree_witness:
  "\<exists>recs. sv_log (fst (service_run (\<lambda>k. CHR ''x'' # show_nat k) (\<lambda>_. 0) (\<lparr>sv_metrics = no_metrics, sv_log = []\<rparr>, new_scope \<lparr>tc_traceID = ''aa'', tc_spanID = ''caller'', tc_flags = ''01''\<rparr>)
      (xc_events (observeHTTP demo_handler (demo_world idle_env) (demo_http demo_auth Evaluations))))) = recs \<and>
    distinct (map record_id (span_records recs))"
proof -
  let ?base = "\<lparr>tc_traceID = ''aa'', tc_spanID = ''caller'', tc_flags = ''01''\<rparr>" and ?sv = "\<lparr>sv_metrics = no_metrics, sv_log = []\<rparr>"
  obtain sv' sc' where run: "service_run (\<lambda>k. CHR ''x'' # show_nat k) (\<lambda>_. 0) (?sv, new_scope ?base)
      (xc_events (observeHTTP demo_handler (demo_world idle_env) (demo_http demo_auth Evaluations))) = (sv', sc')" by (meson surj_pair)
  have ids: "tc_traceID ?base \<noteq> ''''" "inj (\<lambda>k. CHR ''x'' # show_nat k)" "'''' \<notin> range (\<lambda>k. CHR ''x'' # show_nat k)" "tc_spanID ?base \<notin> range (\<lambda>k. CHR ''x'' # show_nat k)"
    by (auto simp: inj_def)
  from request_log_is_a_tree[OF demo_handler_wf(1) ids(1) run ids(2-4)] run show ?thesis by auto
qed

end
