(* ===== verification/GR_Concurrency.thy ===== *)
theory GR_Concurrency
  imports GR_Service "HOL-Library.Multiset"
begin

text \<open>
  Requests served at once. \<open>net/http\<close> runs each request in a goroutine of its own; they meet in the
  one \<open>Service\<close> of \<open>internal/observability/observability.go\<close>: its mutex \<open>mu\<close>, the metrics the mutex
  guards, and the log. A goroutine is the list of the calls its request makes on the observer; what
  it does between two of them touches nothing shared. A call that records metrics takes the mutex,
  runs its statements one at a time, and releases it; goroutines and scrapes of the metrics
  interleave between any two of these steps. A log record is written in one step (\<open>slog\<close> handlers
  are safe for concurrent use).
\<close>

section \<open>The goroutines and what they share\<close>

text \<open>The statements that the recording methods run under the mutex, each an update of one map.\<close>

type_synonym statement = "metrics \<Rightarrow> metrics"

fun statements :: "obs_event \<Rightarrow> statement list" where
  "statements (Evaluated o') =
     [\<lambda>m. m\<lparr>mt_evaluations := increment (evaluation_label o') (mt_evaluations m)\<rparr>,
      \<lambda>m. m\<lparr>mt_evaluation_latency := observeHistogram (mt_evaluation_latency m) (metricStage (eo_Stage o')) (duration_seconds (eo_Duration o'))\<rparr>] @
     map (\<lambda>c m. m\<lparr>mt_findings := increment (boundedLabel c ''unknown'') (mt_findings m)\<rparr>) (eo_FindingCategories o') @
     map (\<lambda>(d, ms) m. m\<lparr>mt_detector_latency := observeHistogram (mt_detector_latency m) (boundedLabel d ''unknown'') (milli_seconds ms)\<rparr>)
       (eo_DetectorTimings o') @
     map (\<lambda>f m. m\<lparr>mt_failures := increment (failure_label f) (mt_failures m)\<rparr>) (eo_Failures o')"
| "statements (Served o') = [\<lambda>m. m\<lparr>mt_http := increment (http_label o') (mt_http m)\<rparr>]"
| "statements _ = []"

definition run_statements :: "statement list \<Rightarrow> metrics \<Rightarrow> metrics" where
  "run_statements = fold (\<lambda>f. f)"

fun records_metrics :: "obs_event \<Rightarrow> bool" where
  "records_metrics (Evaluated _) \<longleftrightarrow> True"
| "records_metrics (Served _) \<longleftrightarrow> True"
| "records_metrics _ \<longleftrightarrow> False"

text \<open>A goroutine: the request it serves, the context of its trace, the calls ahead, and, while it
  holds the mutex, the statements ahead of the first of these calls.\<close>

record thread =
  th_world :: world
  th_request :: http_request
  th_scope :: scope
  th_todo :: "obs_event list"
  th_inside :: "statement list option"

text \<open>The system. The calls that have recorded their metrics are kept in their order, for the proofs only.\<close>

record system =
  sy_metrics :: metrics
  sy_log :: "(log_level \<times> log_attrs) list"
  sy_mutex :: "nat option"
  sy_threads :: "thread list"
  sy_scrapes :: "metrics list"
  sy_recorded :: "obs_event list"

definition new_system :: system where
  "new_system = \<lparr>sy_metrics = no_metrics, sy_log = [], sy_mutex = None, sy_threads = [], sy_scrapes = [], sy_recorded = []\<rparr>"

definition new_thread :: "handler \<Rightarrow> world \<Rightarrow> http_request \<Rightarrow> trace_context \<Rightarrow> thread" where
  "new_thread h w r base = \<lparr>th_world = w, th_request = r, th_scope = new_scope base,
     th_todo = xc_events (observeHTTP h w r), th_inside = None\<rparr>"

definition put_thread :: "nat \<Rightarrow> thread \<Rightarrow> system \<Rightarrow> system" where
  "put_thread i t s = s\<lparr>sy_threads := (sy_threads s)[i := t]\<rparr>"

section \<open>The steps\<close>

text \<open>A step of one goroutine.\<close>

inductive thread_step :: "nat \<Rightarrow> system \<Rightarrow> system \<Rightarrow> bool" where
  log: "i < length (sy_threads s) \<Longrightarrow> t = sy_threads s ! i \<Longrightarrow> th_todo t = e # rest \<Longrightarrow> \<not> records_metrics e \<Longrightarrow> th_inside t = None \<Longrightarrow>
     service_step ids now (\<lparr>sv_metrics = sy_metrics s, sv_log = sy_log s\<rparr>, th_scope t) e = (sv, sc) \<Longrightarrow>
     thread_step i s (put_thread i (t\<lparr>th_scope := sc, th_todo := rest\<rparr>) (s\<lparr>sy_log := sv_log sv\<rparr>))"
| lock: "i < length (sy_threads s) \<Longrightarrow> t = sy_threads s ! i \<Longrightarrow> th_todo t = e # rest \<Longrightarrow> records_metrics e \<Longrightarrow>
     th_inside t = None \<Longrightarrow> sy_mutex s = None \<Longrightarrow>
     thread_step i s (put_thread i (t\<lparr>th_inside := Some (statements e)\<rparr>) (s\<lparr>sy_mutex := Some i\<rparr>))"
| update: "i < length (sy_threads s) \<Longrightarrow> t = sy_threads s ! i \<Longrightarrow> th_inside t = Some (f # fs) \<Longrightarrow>
     thread_step i s (put_thread i (t\<lparr>th_inside := Some fs\<rparr>) (s\<lparr>sy_metrics := f (sy_metrics s)\<rparr>))"
| unlock: "i < length (sy_threads s) \<Longrightarrow> t = sy_threads s ! i \<Longrightarrow> th_inside t = Some [] \<Longrightarrow> th_todo t = e # rest \<Longrightarrow>
     thread_step i s (put_thread i (t\<lparr>th_inside := None, th_todo := rest\<rparr>) (s\<lparr>sy_mutex := None, sy_recorded := sy_recorded s @ [e]\<rparr>))"

text \<open>A request arrives, with a trace of its own or the caller's; the metrics are read under the mutex.\<close>

inductive system_step :: "handler \<Rightarrow> system \<Rightarrow> system \<Rightarrow> bool" for h where
  arrive: "tc_traceID base \<noteq> '''' \<Longrightarrow>
     system_step h s (s\<lparr>sy_threads := sy_threads s @ [new_thread h w r base]\<rparr>)"
| scrape: "sy_mutex s = None \<Longrightarrow> system_step h s (s\<lparr>sy_scrapes := sy_scrapes s @ [sy_metrics s]\<rparr>)"
| run: "thread_step i s s' \<Longrightarrow> system_step h s s'"

inductive reachable :: "handler \<Rightarrow> system \<Rightarrow> bool" for h where
  start: "reachable h new_system"
| more: "reachable h s \<Longrightarrow> system_step h s s' \<Longrightarrow> reachable h s'"

definition quiet :: "system \<Rightarrow> bool" where
  "quiet s \<longleftrightarrow> (\<forall>t \<in> set (sy_threads s). th_todo t = [])"

section \<open>The statements of a call are the call\<close>

text \<open>The abstract service, where a recording is one step.\<close>

fun record_event :: "metrics \<Rightarrow> obs_event \<Rightarrow> metrics" where
  "record_event m (Evaluated o') = RecordEvaluation m o'"
| "record_event m (Served o') = RecordHTTP m o'"
| "record_event m _ = m"

definition replay :: "obs_event list \<Rightarrow> metrics" where
  "replay = foldl record_event no_metrics"

lemma run_statements_simps [simp]:
  "run_statements [] m = m" "run_statements (f # fs) m = run_statements fs (f m)"
  by (simp_all add: run_statements_def)

lemma run_statements_append: "run_statements (fs @ gs) m = run_statements gs (run_statements fs m)"
  by (simp add: run_statements_def)

lemma run_findings: "run_statements (map (\<lambda>c m. m\<lparr>mt_findings := g c (mt_findings m)\<rparr>) cs) m = m\<lparr>mt_findings := fold g cs (mt_findings m)\<rparr>"
  by (induction cs arbitrary: m) simp_all

lemma run_failures: "run_statements (map (\<lambda>c m. m\<lparr>mt_failures := g c (mt_failures m)\<rparr>) cs) m = m\<lparr>mt_failures := fold g cs (mt_failures m)\<rparr>"
  by (induction cs arbitrary: m) simp_all

lemma run_timings:
  "run_statements (map (\<lambda>(d, ms) m. m\<lparr>mt_detector_latency := g d ms (mt_detector_latency m)\<rparr>) ts) m =
     m\<lparr>mt_detector_latency := fold (\<lambda>(d, ms). g d ms) ts (mt_detector_latency m)\<rparr>"
  by (induction ts arbitrary: m) auto

lemma run_statements_record: "run_statements (statements e) m = record_event m e"
proof (cases e)
  case (Evaluated o')
  then show ?thesis
    by (simp add: run_statements_append RecordEvaluation_def run_findings[of "\<lambda>c. increment (boundedLabel c ''unknown'')"]
        run_failures[of "\<lambda>f. increment (failure_label f)"] run_timings[of "\<lambda>d ms coll. observeHistogram coll (boundedLabel d ''unknown'') (milli_seconds ms)"])
qed (simp_all add: RecordHTTP_def)

lemma replay_snoc [simp]: "replay [] = no_metrics" "replay (es @ [e]) = record_event (replay es) e"
  by (simp_all add: replay_def)

lemma replay_fold: "foldl record_event m es = foldl RecordEvaluation (foldl RecordHTTP m (services es)) (evaluations es)"
proof (induction es arbitrary: m)
  case (Cons e es)
  then show ?case by (cases e) (simp_all add: record_commute_fold)
qed simp

section \<open>The mutex\<close>

definition exclusive :: "system \<Rightarrow> bool" where
  "exclusive s \<longleftrightarrow> (\<forall>i < length (sy_threads s). th_inside (sy_threads s ! i) \<noteq> None \<longrightarrow> sy_mutex s = Some i)"

text \<open>With the mutex free the metrics are those of whole calls; with it taken, its holder has the
  statements left that complete its call.\<close>

definition coherent :: "system \<Rightarrow> bool" where
  "coherent s \<longleftrightarrow> (case sy_mutex s of None \<Rightarrow> sy_metrics s = replay (sy_recorded s)
     | Some i \<Rightarrow> i < length (sy_threads s) \<and> (\<exists>e rest fs. th_todo (sy_threads s ! i) = e # rest \<and> records_metrics e \<and>
         th_inside (sy_threads s ! i) = Some fs \<and> run_statements fs (sy_metrics s) = record_event (replay (sy_recorded s)) e))"

definition consistent_scrapes :: "system \<Rightarrow> bool" where
  "consistent_scrapes s \<longleftrightarrow> (\<forall>m \<in> set (sy_scrapes s). \<exists>n. m = replay (take n (sy_recorded s)))"

lemma exclusive_put:
  assumes "exclusive s" "sy_threads s' = (sy_threads s)[i := t]" "th_inside t \<noteq> None \<Longrightarrow> sy_mutex s' = Some i"
    and "sy_mutex s' = sy_mutex s \<or> sy_mutex s = None \<or> sy_mutex s = Some i"
  shows "exclusive s'"
  unfolding exclusive_def
proof (intro allI impI)
  fix j assume j: "j < length (sy_threads s')" "th_inside (sy_threads s' ! j) \<noteq> None"
  show "sy_mutex s' = Some j"
  proof (cases "j = i")
    case True
    then show ?thesis using j assms(2,3) by simp
  next
    case False
    then have "sy_mutex s = Some j" using j assms(1,2) unfolding exclusive_def by simp
    with False assms(4) show ?thesis by auto
  qed
qed

lemma exclusive_holder:
  "exclusive s \<Longrightarrow> i < length (sy_threads s) \<Longrightarrow> th_inside (sy_threads s ! i) = Some fs \<Longrightarrow> sy_mutex s = Some i"
  by (simp add: exclusive_def)

lemma thread_step_guarded:
  assumes "thread_step i s s'" "exclusive s" "coherent s" "consistent_scrapes s"
  shows "exclusive s' \<and> coherent s' \<and> consistent_scrapes s'"
  using assms
proof (cases rule: thread_step.cases)
  case (log t e rest ids now sv sc)
  note none = log(6)
  have "exclusive s'"
    by (rule exclusive_put[OF assms(2), of _ i "t\<lparr>th_scope := sc, th_todo := rest\<rparr>"]) (simp_all add: log(1) put_thread_def none)
  moreover have "coherent s'" using log(1,2,3) none assms(3)
    by (auto simp: coherent_def put_thread_def nth_list_update split: option.splits)
  moreover have "consistent_scrapes s'" using log(1) assms(4) by (simp add: consistent_scrapes_def put_thread_def)
  ultimately show ?thesis by blast
next
  case (lock t e rest)
  have "exclusive s'"
    by (rule exclusive_put[OF assms(2), of _ i "t\<lparr>th_inside := Some (statements e)\<rparr>"]) (simp_all add: lock(1,7) put_thread_def)
  moreover have "coherent s'" using lock(1,2,4,5,7) assms(3)
    by (simp add: coherent_def put_thread_def run_statements_record)
  moreover have "consistent_scrapes s'" using lock(1) assms(4) by (simp add: consistent_scrapes_def put_thread_def)
  ultimately show ?thesis by blast
next
  case (update t f fs)
  have held: "sy_mutex s = Some i" using exclusive_holder[OF assms(2) update(2)] update(3,4) by simp
  have "exclusive s'"
    by (rule exclusive_put[OF assms(2), of _ i "t\<lparr>th_inside := Some fs\<rparr>"]) (simp_all add: update(1) put_thread_def held)
  moreover have "coherent s'" using update(1,2,3,4) assms(3) held by (auto simp: coherent_def put_thread_def)
  moreover have "consistent_scrapes s'" using update(1) assms(4) by (simp add: consistent_scrapes_def put_thread_def)
  ultimately show ?thesis by blast
next
  case (unlock t e rest)
  have held: "sy_mutex s = Some i" using exclusive_holder[OF assms(2) unlock(2)] unlock(3,4) by simp
  have "exclusive s'"
    by (rule exclusive_put[OF assms(2), of _ i "t\<lparr>th_inside := None, th_todo := rest\<rparr>"]) (simp_all add: unlock(1) put_thread_def held)
  moreover have "coherent s'" using unlock(1,3,4,5) assms(3) held by (simp add: coherent_def put_thread_def)
  moreover have "\<exists>n'. replay (take n (sy_recorded s)) = replay (take n' (sy_recorded s @ [e]))" for n
    by (rule exI[of _ "min n (length (sy_recorded s))"]) (simp add: min_def)
  then have "consistent_scrapes s'" using unlock(1) assms(4)
    unfolding consistent_scrapes_def put_thread_def by simp metis
  ultimately show ?thesis by blast
qed

lemma reachable_guarded:
  assumes "reachable h s"
  shows "exclusive s \<and> coherent s \<and> consistent_scrapes s"
  using assms
proof (induction rule: reachable.induct)
  case start
  then show ?case by (simp add: new_system_def exclusive_def coherent_def consistent_scrapes_def)
next
  case (more s s')
  from more.hyps(2) more.IH show ?case
  proof (cases rule: system_step.cases)
    case (arrive base w r)
    have "exclusive s'" using more.IH arrive(1) by (simp add: exclusive_def nth_append new_thread_def less_Suc_eq)
    moreover have "coherent s'" using more.IH arrive(1) by (auto simp: coherent_def nth_append split: option.splits)
    ultimately show ?thesis using more.IH arrive(1) by (simp add: consistent_scrapes_def)
  next
    case scrape
    moreover have "\<exists>n. replay (sy_recorded s) = replay (take n (sy_recorded s))"
      by (rule exI[of _ "length (sy_recorded s)"]) simp
    ultimately show ?thesis using more.IH
      by (auto simp: exclusive_def coherent_def consistent_scrapes_def)
  next
    case (run i)
    with more.IH thread_step_guarded show ?thesis by blast
  qed
qed

section \<open>What is ahead of each goroutine\<close>

definition th_events :: "handler \<Rightarrow> thread \<Rightarrow> obs_event list" where
  "th_events h t = xc_events (observeHTTP h (th_world t) (th_request t))"

definition audit_records :: "thread \<Rightarrow> obs_event list \<Rightarrow> log_attrs list" where
  "audit_records t es = map (RecordAudit (Some (sc_base (th_scope t)))) (audits es)"

text \<open>The spans that the calls ahead start and end fit the spans open.\<close>

definition tracing :: "thread \<Rightarrow> bool" where
  "tracing t \<longleftrightarrow> chained (sc_base (th_scope t)) (sc_open (th_scope t)) \<and> tc_traceID (sc_base (th_scope t)) \<noteq> '''' \<and>
     open_spans (map ls_name (sc_open (th_scope t))) (traces (th_todo t)) = Some []"

definition accounted :: "handler \<Rightarrow> system \<Rightarrow> bool" where
  "accounted h s \<longleftrightarrow>
     mset (sy_recorded s) + (\<Sum>t\<leftarrow>sy_threads s. mset (filter records_metrics (th_todo t))) =
       (\<Sum>t\<leftarrow>sy_threads s. mset (filter records_metrics (th_events h t))) \<and>
     mset (written False (sy_log s)) + (\<Sum>t\<leftarrow>sy_threads s. mset (audit_records t (th_todo t))) =
       (\<Sum>t\<leftarrow>sy_threads s. mset (audit_records t (th_events h t))) \<and>
     (\<forall>t \<in> set (sy_threads s). tracing t \<and> (\<forall>fs. th_inside t = Some fs \<longrightarrow> (\<exists>e rest. th_todo t = e # rest \<and> records_metrics e)))"

lemma sum_list_put:
  "i < length xs \<Longrightarrow> sum_list (map f (xs[i := y])) + f (xs ! i) = sum_list (map f xs) + f y" for f :: "'a \<Rightarrow> 'b::comm_monoid_add"
proof (induction xs arbitrary: i)
  case (Cons x xs)
  then show ?case
  proof (cases i)
    case (Suc j)
    with Cons.IH[of j] Cons.prems show ?thesis by (simp add: add.assoc)
  qed (simp add: ac_simps)
qed simp

text \<open>An account is kept when one goroutine hands over what it no longer has ahead.\<close>

lemma account_put:
  fixes ahead planned :: "thread \<Rightarrow> 'a multiset"
  assumes "m + (\<Sum>t\<leftarrow>ts. ahead t) = (\<Sum>t\<leftarrow>ts. planned t)" "i < length ts" "planned t = planned (ts ! i)" "d + ahead t = ahead (ts ! i)"
  shows "m + d + (\<Sum>t\<leftarrow>ts[i := t]. ahead t) = (\<Sum>t\<leftarrow>ts[i := t]. planned t)"
proof -
  have p: "(\<Sum>t\<leftarrow>ts[i := t]. planned t) = (\<Sum>t\<leftarrow>ts. planned t)"
    using sum_list_put[OF assms(2), of planned t] assms(3) by simp
  have "(\<Sum>t\<leftarrow>ts[i := t]. ahead t) + (d + ahead t) = (\<Sum>t\<leftarrow>ts. ahead t) + ahead t"
    using sum_list_put[OF assms(2), of ahead t] assms(4) by simp
  then have "d + (\<Sum>t\<leftarrow>ts[i := t]. ahead t) = (\<Sum>t\<leftarrow>ts. ahead t)" by (simp add: ac_simps)
  with p assms(1) show ?thesis by (simp add: add.assoc)
qed

lemma traces_skip: "records_metrics e \<Longrightarrow> traces (e # es) = traces es" "records_metrics e \<Longrightarrow> audits (e # es) = audits es"
  by (cases e; simp)+

text \<open>A call that writes the log keeps the stack of spans, and writes the audit record it carries.\<close>

lemma logged_call:
  assumes "tracing t" "th_todo t = e # rest" "service_step ids now (sv, th_scope t) e = (sv', sc')"
  shows "tracing (t\<lparr>th_scope := sc', th_todo := rest\<rparr>)" "sc_base sc' = sc_base (th_scope t)"
    "written False (sv_log sv') = written False (sv_log sv) @ audit_records t [e]"
proof -
  from assms(1,2) obtain stack where o: "open_spans (map ls_name (sc_open (th_scope t))) (trace_of e) = Some stack"
    "open_spans stack (traces rest) = Some []" by (auto simp: tracing_def open_spans_append split: option.splits)
  have *: "chained (sc_base (th_scope t)) (sc_open (th_scope t))" "tc_traceID (sc_base (th_scope t)) \<noteq> ''''"
    using assms(1) by (simp_all add: tracing_def)
  note step = service_step_log[OF * o(1) assms(3)]
  from step show "tracing (t\<lparr>th_scope := sc', th_todo := rest\<rparr>)" using * o(2) by (simp add: tracing_def)
  from step show "sc_base sc' = sc_base (th_scope t)" by simp
  from step show "written False (sv_log sv') = written False (sv_log sv) @ audit_records t [e]"
    by (auto simp: written_append audit_records_def)
qed

lemma audit_records_cong: "sc_base (th_scope t) = sc_base (th_scope t') \<Longrightarrow> audit_records t = audit_records t'"
  by (simp add: audit_records_def fun_eq_iff)

lemma audit_records_Cons: "audit_records t (e # es) = audit_records t [e] @ audit_records t es"
  by (simp add: audit_records_def)

lemma accounted_put:
  assumes "accounted h s" "i < length (sy_threads s)" "sy_threads s' = (sy_threads s)[i := t]"
    and "th_events h t = th_events h (sy_threads s ! i)" "sc_base (th_scope t) = sc_base (th_scope (sy_threads s ! i))"
    and "mset (sy_recorded s') = mset (sy_recorded s) + d" "d + mset (filter records_metrics (th_todo t)) = mset (filter records_metrics (th_todo (sy_threads s ! i)))"
    and "mset (written False (sy_log s')) = mset (written False (sy_log s)) + l" "l + mset (audit_records t (th_todo t)) = mset (audit_records t (th_todo (sy_threads s ! i)))"
    and "tracing t" "\<And>fs. th_inside t = Some fs \<Longrightarrow> \<exists>e rest. th_todo t = e # rest \<and> records_metrics e"
  shows "accounted h s'"
proof -
  note acc = assms(1)[unfolded accounted_def]
  note same = audit_records_cong[OF assms(5)]
  have "mset (sy_recorded s) + d + (\<Sum>t\<leftarrow>(sy_threads s)[i := t]. mset (filter records_metrics (th_todo t))) =
      (\<Sum>t\<leftarrow>(sy_threads s)[i := t]. mset (filter records_metrics (th_events h t)))"
    by (rule account_put) (use acc assms(2,4,7) in auto)
  moreover have "mset (written False (sy_log s)) + l + (\<Sum>t\<leftarrow>(sy_threads s)[i := t]. mset (audit_records t (th_todo t))) =
      (\<Sum>t\<leftarrow>(sy_threads s)[i := t]. mset (audit_records t (th_events h t)))"
    by (rule account_put) (use acc assms(2,4,9) same in auto)
  moreover have "\<forall>t' \<in> set ((sy_threads s)[i := t]). tracing t' \<and> (\<forall>fs. th_inside t' = Some fs \<longrightarrow> (\<exists>e rest. th_todo t' = e # rest \<and> records_metrics e))"
    using set_update_subset_insert[of "sy_threads s" i t] acc assms(10,11) by blast
  ultimately show ?thesis unfolding accounted_def using assms(3,6,8) by (simp only:)
qed

lemma accounted_step:
  assumes "thread_step i s s'" "accounted h s"
  shows "accounted h s'"
  using assms(1)
proof (cases rule: thread_step.cases)
  case (log t e rest ids now sv sc)
  have t: "tracing t" using assms(2) log(2,3) by (auto simp: accounted_def)
  note call = logged_call[OF t log(4,7)]
  have same: "audit_records (t\<lparr>th_scope := sc, th_todo := rest\<rparr>) = audit_records t"
    by (rule audit_records_cong) (simp add: call(2))
  show ?thesis
    by (rule accounted_put[OF assms(2) log(2), of _ "t\<lparr>th_scope := sc, th_todo := rest\<rparr>" "{#}" "mset (audit_records t [e])"])
      (use log(4,5,6) call audit_records_Cons[of t e rest] in \<open>simp_all add: log(1) put_thread_def th_events_def same flip: log(3)\<close>)
next
  case (lock t e rest)
  then have "tracing t" using assms(2) by (auto simp: accounted_def)
  then show ?thesis
    by (intro accounted_put[OF assms(2) lock(2), of _ "t\<lparr>th_inside := Some (statements e)\<rparr>" "{#}" "{#}"])
      (use lock(3,4,5) in \<open>auto simp: lock(1) put_thread_def th_events_def tracing_def audit_records_def\<close>)
next
  case (update t f fs)
  then have "tracing t" "\<exists>e rest. th_todo t = e # rest \<and> records_metrics e" using assms(2) by (auto simp: accounted_def)
  then show ?thesis
    by (intro accounted_put[OF assms(2) update(2), of _ "t\<lparr>th_inside := Some fs\<rparr>" "{#}" "{#}"])
      (use update(3) in \<open>auto simp: update(1) put_thread_def th_events_def tracing_def audit_records_def\<close>)
next
  case (unlock t e rest)
  then have t: "tracing t" "records_metrics e" using assms(2) by (auto simp: accounted_def)
  then show ?thesis
    by (intro accounted_put[OF assms(2) unlock(2), of _ "t\<lparr>th_inside := None, th_todo := rest\<rparr>" "{#e#}" "{#}"])
      (use unlock(3,5) traces_skip[OF t(2)] in \<open>auto simp: unlock(1) put_thread_def th_events_def tracing_def audit_records_def\<close>)
qed

lemma tracing_new: "wf_handler h \<Longrightarrow> tc_traceID base \<noteq> '''' \<Longrightarrow> tracing (new_thread h w r base)"
  using observeHTTP_once[of h w r] by (simp add: tracing_def new_thread_def new_scope_def balanced_def)

lemma reachable_accounted:
  assumes "reachable h s" "wf_handler h"
  shows "accounted h s"
  using assms
proof (induction rule: reachable.induct)
  case start
  then show ?case by (simp add: new_system_def accounted_def written_def)
next
  case (more s s')
  from more.hyps(2) show ?case
  proof (cases rule: system_step.cases)
    case (arrive base w r)
    then show ?thesis using more.IH more.prems tracing_new[OF more.prems, of base w r]
      by (simp add: accounted_def new_thread_def[of h w r base, unfolded th_events_def] th_events_def add.assoc[symmetric])
  next
    case scrape
    then show ?thesis using more.IH more.prems by (simp add: accounted_def)
  next
    case (run i)
    with more.IH more.prems accounted_step show ?thesis by blast
  qed
qed

section \<open>What the metrics of the service count\<close>

lemma replay_counts: "counts_evaluations (replay es) (evaluations es)"
proof (induction es rule: rev_induct)
  case Nil
  then show ?case by (simp add: counts_none)
next
  case (snoc e es)
  then show ?case by (cases e) (simp_all add: evaluations_def counts_step counts_http_free)
qed

lemma replay_http: "tally (mt_http (replay es)) k = of_nat (length (filter (\<lambda>x. http_label x = k) (services es)))"
proof (induction es rule: rev_induct)
  case Nil
  then show ?case by (simp add: no_metrics_def tally_def)
next
  case (snoc e es)
  then show ?case
    by (cases e) (simp_all add: services_def RecordHTTP_def RecordEvaluation_def tally_increment add.commute)
qed

lemma mset_concat_map:
  assumes "mset es = (\<Sum>t\<leftarrow>ts. mset (g t))"
  shows "mset (concat (map f es)) = (\<Sum>t\<leftarrow>ts. mset (concat (map f (g t))))"
proof -
  have *: "mset (concat (map f xs)) = (\<Sum>x\<in>#mset xs. mset (f x))" for xs by (induction xs) simp_all
  have "(\<Sum>x\<in>#(\<Sum>t\<leftarrow>ts. mset (g t)). mset (f x)) = (\<Sum>t\<leftarrow>ts. \<Sum>x\<in>#mset (g t). mset (f x))" by (induction ts) simp_all
  with assms show ?thesis by (simp add: *)
qed

lemma recording_calls: "services (filter records_metrics es) = services es" "evaluations (filter records_metrics es) = evaluations es"
proof (induction es)
  case (Cons e es)
  { case 1 then show ?case using Cons by (cases e) (simp_all add: services_def) }
  { case 2 then show ?case using Cons by (cases e) (simp_all add: evaluations_def) }
qed simp_all

text \<open>The HTTP observation of a goroutine's request.\<close>

definition th_served :: "handler \<Rightarrow> thread \<Rightarrow> http_observation" where
  "th_served h t = \<lparr>ho_Method = rq_Method (th_request t), ho_Route = metricRoute (rq_Path (th_request t)),
     ho_Status = sent_status (xc_writer (observeHTTP h (th_world t) (th_request t)))\<rparr>"

lemma sum_list_none: "(\<And>t. t \<in> set ts \<Longrightarrow> f t = {#}) \<Longrightarrow> (\<Sum>t\<leftarrow>ts. f t) = {#}"
  by (induction ts) auto

lemma quiet_account:
  assumes "reachable h s" "wf_handler h" "quiet s"
  shows "sy_mutex s = None" "sy_metrics s = replay (sy_recorded s)"
    "mset (services (sy_recorded s)) = mset (map (th_served h) (sy_threads s))"
    "mset (evaluations (sy_recorded s)) = (\<Sum>t\<leftarrow>sy_threads s. mset (evaluations (th_events h t)))"
    "mset (written False (sy_log s)) = (\<Sum>t\<leftarrow>sy_threads s. mset (audit_records t (th_events h t)))"
proof -
  have coh: "coherent s" using reachable_guarded[OF assms(1)] by blast
  then show free: "sy_mutex s = None" using assms(3) by (auto simp: coherent_def quiet_def split: option.splits)
  with coh show "sy_metrics s = replay (sy_recorded s)" by (simp add: coherent_def)
  have none: "(\<Sum>t\<leftarrow>sy_threads s. mset (f t (th_todo t))) = {#}" if "\<And>t. f t [] = []" for f :: "thread \<Rightarrow> obs_event list \<Rightarrow> 'a list"
    using assms(3) that by (intro sum_list_none) (simp add: quiet_def)
  note acc = reachable_accounted[OF assms(1,2), unfolded accounted_def]
  have rec: "mset (sy_recorded s) = (\<Sum>t\<leftarrow>sy_threads s. mset (filter records_metrics (th_events h t)))"
    using acc none[of "\<lambda>_. filter records_metrics"] by simp
  from acc none[of audit_records] show "mset (written False (sy_log s)) = (\<Sum>t\<leftarrow>sy_threads s. mset (audit_records t (th_events h t)))"
    by (simp add: audit_records_def)
  have "mset (services (sy_recorded s)) = (\<Sum>t\<leftarrow>sy_threads s. mset (services (th_events h t)))"
    using mset_concat_map[OF rec, of served_of] recording_calls(1) by (simp add: services_def)
  also have "\<dots> = mset (map (th_served h) (sy_threads s))"
  proof -
    have "mset (services (th_events h t)) = {#th_served h t#}" for t
      using observeHTTP_once[OF assms(2)] by (simp add: th_events_def th_served_def)
    moreover have "(\<Sum>t\<leftarrow>ts. {#th_served h t#}) = mset (map (th_served h) ts)" for ts by (induction ts) simp_all
    ultimately show ?thesis by simp
  qed
  finally show "mset (services (sy_recorded s)) = mset (map (th_served h) (sy_threads s))" .
  show "mset (evaluations (sy_recorded s)) = (\<Sum>t\<leftarrow>sy_threads s. mset (evaluations (th_events h t)))"
    using mset_concat_map[OF rec, of evaluation_of] recording_calls(2) by (simp add: evaluations_def)
qed

section \<open>Progress\<close>

text \<open>A step of some goroutine, and the steps ahead.\<close>

definition goroutine_step :: "system \<Rightarrow> system \<Rightarrow> bool" where
  "goroutine_step s s' \<longleftrightarrow> (\<exists>i. thread_step i s s')"

definition call_work :: "obs_event \<Rightarrow> nat" where
  "call_work e = (if records_metrics e then length (statements e) + 2 else 1)"

definition thread_work :: "thread \<Rightarrow> nat" where
  "thread_work t = (case th_inside t of None \<Rightarrow> sum_list (map call_work (th_todo t))
     | Some fs \<Rightarrow> length fs + 1 + sum_list (map call_work (tl (th_todo t))))"

definition total_work :: "system \<Rightarrow> nat" where
  "total_work s = (\<Sum>t\<leftarrow>sy_threads s. thread_work t)"

lemma thread_step_work:
  assumes "thread_step i s s'"
  shows "total_work s = Suc (total_work s')"
proof -
  obtain t where t: "i < length (sy_threads s)" "sy_threads s' = (sy_threads s)[i := t]" "thread_work (sy_threads s ! i) = Suc (thread_work t)"
    using assms by (cases rule: thread_step.cases) (auto simp: put_thread_def thread_work_def call_work_def split: option.splits)
  then show ?thesis using sum_list_put[OF t(1), of thread_work t] by (simp add: total_work_def)
qed

lemma thread_step_requests:
  "thread_step i s s' \<Longrightarrow> map th_world (sy_threads s') = map th_world (sy_threads s) \<and> map th_request (sy_threads s') = map th_request (sy_threads s)"
  by (cases rule: thread_step.cases) (auto simp: put_thread_def map_update intro!: nth_equalityI simp: nth_list_update)

lemma reachable_step: "reachable h s \<Longrightarrow> goroutine_step s s' \<Longrightarrow> reachable h s'"
  unfolding goroutine_step_def by (blast intro: reachable.intros system_step.run)

text \<open>No deadlock: the holder of the mutex can go on, and without a holder any goroutine can.\<close>

lemma not_stuck:
  assumes "reachable h s" "\<not> quiet s"
  obtains s' where "goroutine_step s s'"
proof (cases "sy_mutex s")
  case (Some i)
  with reachable_guarded[OF assms(1)] obtain e rest fs where "i < length (sy_threads s)" "th_todo (sy_threads s ! i) = e # rest"
    "th_inside (sy_threads s ! i) = Some fs" by (auto simp: coherent_def)
  then show ?thesis using that unfolding goroutine_step_def
    by (cases fs) (blast intro: thread_step.update[OF _ refl] thread_step.unlock[OF _ refl])+
next
  case None
  from assms(2) obtain i e rest where i: "i < length (sy_threads s)" "th_todo (sy_threads s ! i) = e # rest"
    by (auto simp: quiet_def in_set_conv_nth neq_Nil_conv)
  have out: "th_inside (sy_threads s ! i) = None"
    using reachable_guarded[OF assms(1)] None i(1) by (auto simp: exclusive_def)
  obtain sv sc where "service_step (\<lambda>_. '''') (\<lambda>_. 0) (\<lparr>sv_metrics = sy_metrics s, sv_log = sy_log s\<rparr>, th_scope (sy_threads s ! i)) e = (sv, sc)"
    by (meson surj_pair)
  then show ?thesis using that i out None unfolding goroutine_step_def
    by (cases "records_metrics e") (blast intro: thread_step.lock[OF _ refl] thread_step.log[OF _ refl])+
qed

lemma reachable_steps: "(goroutine_step ^^ n) s s' \<Longrightarrow> reachable h s \<Longrightarrow> reachable h s' \<and> total_work s = total_work s' + n \<and>
    map th_world (sy_threads s') = map th_world (sy_threads s) \<and> map th_request (sy_threads s') = map th_request (sy_threads s)"
proof (induction n arbitrary: s')
  case (Suc n)
  then obtain s1 where "(goroutine_step ^^ n) s s1" "goroutine_step s1 s'" by auto
  with Suc reachable_step show ?case unfolding goroutine_step_def
    by (metis add_Suc_right add_Suc thread_step_requests thread_step_work)
qed simp

lemma quiet_work:
  assumes "reachable h s" "quiet s"
  shows "total_work s = 0"
proof -
  note inv = reachable_guarded[OF assms(1)]
  then have "sy_mutex s = None" using assms(2) by (auto simp: coherent_def quiet_def split: option.splits)
  then have "thread_work t = 0" if "t \<in> set (sy_threads s)" for t
  proof -
    have "th_inside t = None" using inv \<open>sy_mutex s = None\<close> that by (auto simp: exclusive_def in_set_conv_nth)
    moreover have "th_todo t = []" using assms(2) that by (simp add: quiet_def)
    ultimately show ?thesis by (simp add: thread_work_def)
  qed
  then show ?thesis by (simp add: total_work_def)
qed

lemma completes:
  assumes "reachable h s"
  obtains s' where "(goroutine_step ^^ total_work s) s s'" "quiet s'"
proof -
  have "\<exists>s'. (goroutine_step ^^ total_work s) s s' \<and> quiet s'"
    using assms
  proof (induction "total_work s" arbitrary: s)
    case 0
    then show ?case using not_stuck[of h s] thread_step_work unfolding goroutine_step_def
      by (metis nat.distinct(1) relpowp_0_I)
  next
    case (Suc n)
    have "\<not> quiet s" using Suc.hyps(2) quiet_work[OF Suc.prems] by auto
    then obtain s1 where "goroutine_step s s1" by (rule not_stuck[OF Suc.prems])
    with Suc show ?case using reachable_step thread_step_work unfolding goroutine_step_def
      by (metis goroutine_step_def nat.inject relpowp_Suc_I2)
  qed
  with that show ?thesis by blast
qed

section \<open>Properties\<close>

text \<open>
  C33. Mutual exclusion and what it is for. However the requests interleave, two goroutines are never
  inside a recording at once, and every scrape of the metrics shows the effect of a whole number of
  recordings, never a recording half made: its counters and histograms are exactly the counts of a
  prefix of the sequence of recordings.
\<close>

theorem scrapes_consistent:
  assumes "reachable h s"
  shows "(\<forall>i < length (sy_threads s). \<forall>j < length (sy_threads s).
      th_inside (sy_threads s ! i) \<noteq> None \<and> th_inside (sy_threads s ! j) \<noteq> None \<longrightarrow> i = j) \<and>
    (\<forall>m \<in> set (sy_scrapes s). \<exists>n. let seen = take n (sy_recorded s) in counts_evaluations m (evaluations seen) \<and>
      (\<forall>k. tally (mt_http m) k = of_nat (length (filter (\<lambda>x. http_label x = k) (services seen)))))"
proof -
  note inv = reachable_guarded[OF assms]
  from inv have "i = j" if "i < length (sy_threads s)" "j < length (sy_threads s)"
    "th_inside (sy_threads s ! i) \<noteq> None" "th_inside (sy_threads s ! j) \<noteq> None" for i j
    using that unfolding exclusive_def by (metis option.inject)
  moreover have "\<exists>n. let seen = take n (sy_recorded s) in counts_evaluations m (evaluations seen) \<and>
      (\<forall>k. tally (mt_http m) k = of_nat (length (filter (\<lambda>x. http_label x = k) (services seen))))" if "m \<in> set (sy_scrapes s)" for m
    using inv that unfolding consistent_scrapes_def Let_def by (metis replay_counts replay_http)
  ultimately show ?thesis by blast
qed

text \<open>
  C34. No observation is lost. Once no request is under way, the counter of HTTP requests of every label
  equals the number of requests served with that label, modulo 2^64; the evaluation metrics count
  exactly the evaluations of all the requests; and at info level the log holds exactly the audit
  records of all the requests, each with its request's trace.
\<close>

theorem no_observation_lost:
  assumes "reachable h s" "wf_handler h" "quiet s"
  shows "(\<forall>k. tally (mt_http (sy_metrics s)) k = of_nat (length (filter (\<lambda>t. http_label (th_served h t) = k) (sy_threads s)))) \<and>
    (\<exists>os. mset os = (\<Sum>t\<leftarrow>sy_threads s. mset (evaluations (th_events h t))) \<and> counts_evaluations (sy_metrics s) os) \<and>
    mset (written False (sy_log s)) = (\<Sum>t\<leftarrow>sy_threads s. mset (audit_records t (th_events h t)))"
proof -
  note q = quiet_account[OF assms]
  have same: "length (filter P xs) = length (filter P ys)" if "mset xs = mset ys" for P and xs ys :: "http_observation list"
    using that by (metis mset_filter size_mset)
  have "length (filter (\<lambda>x. http_label x = k) (services (sy_recorded s))) = length (filter (\<lambda>t. http_label (th_served h t) = k) (sy_threads s))" for k
    using same[OF q(3)] by (simp add: filter_map o_def)
  then show ?thesis using q replay_counts[of "sy_recorded s"] replay_http[of "sy_recorded s"] by auto
qed

text \<open>
  C35. The recordings do not deadlock and every schedule completes. From any reachable state the
  goroutines can run until no request is under way; every schedule of them takes at most
  \<open>total_work\<close> steps, and one that cannot go on has completed every request.
\<close>

theorem every_schedule_completes:
  assumes "reachable h s"
  shows "(\<exists>s'. (goroutine_step ^^ total_work s) s s' \<and> quiet s') \<and>
    (\<forall>n s'. (goroutine_step ^^ n) s s' \<longrightarrow> n \<le> total_work s \<and> (quiet s' \<or> (\<exists>s''. goroutine_step s' s'')) \<and>
       map th_request (sy_threads s') = map th_request (sy_threads s))"
proof -
  have "n \<le> total_work s \<and> (quiet s' \<or> (\<exists>s''. goroutine_step s' s'')) \<and> map th_request (sy_threads s') = map th_request (sy_threads s)"
    if "(goroutine_step ^^ n) s s'" for n s'
    using reachable_steps[OF that assms] not_stuck[of h s'] by auto
  moreover obtain s' where "(goroutine_step ^^ total_work s) s s'" "quiet s'" by (rule completes[OF assms])
  ultimately show ?thesis by blast
qed

section \<open>Witnesses\<close>

text \<open>Two evaluation requests, and a scrape before they are served.\<close>

definition demo_arrivals :: system where
  "demo_arrivals = new_system\<lparr>sy_scrapes := [no_metrics],
     sy_threads := replicate 2 (new_thread demo_handler (demo_world idle_env) (demo_http demo_auth Evaluations) \<lparr>tc_traceID = ''aa'', tc_spanID = '''', tc_flags = ''01''\<rparr>)\<rparr>"

lemma demo_arrivals_reachable: "reachable demo_handler demo_arrivals"
proof -
  let ?base = "\<lparr>tc_traceID = ''aa'', tc_spanID = '''', tc_flags = ''01''\<rparr>"
  have arrive: "reachable demo_handler s \<Longrightarrow>
      reachable demo_handler (s\<lparr>sy_threads := sy_threads s @ [new_thread demo_handler (demo_world idle_env) (demo_http demo_auth Evaluations) ?base]\<rparr>)" for s
    by (rule reachable.more, assumption, rule system_step.arrive) simp
  have "reachable demo_handler (new_system\<lparr>sy_scrapes := sy_scrapes new_system @ [sy_metrics new_system]\<rparr>)"
    by (rule reachable.more[OF reachable.start system_step.scrape]) (simp add: new_system_def)
  from arrive[OF arrive[OF this]] show ?thesis
    by (simp add: demo_arrivals_def new_system_def numeral_2_eq_2)
qed

theorem scrapes_consistent_witness:
  "\<exists>n. let seen = take n (sy_recorded demo_arrivals) in counts_evaluations no_metrics (evaluations seen) \<and>
      (\<forall>k. tally (mt_http no_metrics) k = of_nat (length (filter (\<lambda>x. http_label x = k) (services seen))))"
  using scrapes_consistent[OF demo_arrivals_reachable] by (simp add: demo_arrivals_def)

lemma demo_completed:
  obtains s where "reachable demo_handler s" "quiet s" "map th_world (sy_threads s) = replicate 2 (demo_world idle_env)"
    "map th_request (sy_threads s) = replicate 2 (demo_http demo_auth Evaluations)"
proof -
  obtain s where s: "(goroutine_step ^^ total_work demo_arrivals) demo_arrivals s" "quiet s"
    by (rule completes[OF demo_arrivals_reachable])
  from reachable_steps[OF s(1) demo_arrivals_reachable] s(2) that[of s] show ?thesis
    by (simp add: demo_arrivals_def new_thread_def numeral_2_eq_2)
qed

lemma map_replicate_same: "map f xs = replicate n y \<Longrightarrow> x \<in> set xs \<Longrightarrow> f x = y"
proof (induction xs arbitrary: n)
  case (Cons a xs)
  then show ?case by (cases n) auto
qed simp

theorem no_observation_lost_witness:
  "\<exists>s. reachable demo_handler s \<and> tally (mt_http (sy_metrics s)) (''POST'', ''/v1/evaluations'', 200) = 2"
proof -
  obtain s where s: "reachable demo_handler s" "quiet s" "map th_world (sy_threads s) = replicate 2 (demo_world idle_env)"
    "map th_request (sy_threads s) = replicate 2 (demo_http demo_auth Evaluations)" by (rule demo_completed)
  have all: "\<forall>t \<in> set (sy_threads s). th_world t = demo_world idle_env \<and> th_request t = demo_http demo_auth Evaluations"
    using map_replicate_same[OF s(3)] map_replicate_same[OF s(4)] by simp
  have "length (sy_threads s) = 2" using arg_cong[OF s(3), of length] by simp
  moreover have "http_label (th_served demo_handler t) = (''POST'', ''/v1/evaluations'', 200)" if "t \<in> set (sy_threads s)" for t
    using all that demo_200(1) by (simp add: th_served_def http_label_def boundedLabel_def metricMethod_def demo_http_def metricRoute_def)
  then have "filter (\<lambda>t. http_label (th_served demo_handler t) = (''POST'', ''/v1/evaluations'', 200)) (sy_threads s) = sy_threads s"
    by (simp add: filter_id_conv)
  ultimately show ?thesis
    using no_observation_lost[OF s(1) demo_handler_wf(1) s(2)] s(1) by (intro exI[of _ s]) simp
qed

theorem every_schedule_completes_witness:
  "\<exists>s. (goroutine_step ^^ total_work demo_arrivals) demo_arrivals s \<and> quiet s"
  using every_schedule_completes[OF demo_arrivals_reachable] by blast

end
