(* ===== verification/Spec2Isabelle.thy ===== *)
theory Spec2Isabelle
  imports GR_Startup GR_Concurrency
begin

text \<open>
  A verification development for ThinkPixelGR, the guardrails evaluator: a service that receives the
  content exchanged with a language model, runs the detectors of the policies configured for a tenant
  and a stage, and answers with a decision (allow, monitor, redact, block) and, when it redacts, with
  the content transformed.

  The program. \<open>cmd/thinkpixelgr/main.go\<close> reads the flags and the environment, loads the configuration
  (\<open>internal/config\<close>), compiles its policies into a resolver (\<open>internal/policy\<close>), builds the access
  controller (\<open>internal/auth\<close>), the evaluator (\<open>internal/engine\<close>), the observer
  (\<open>internal/observability\<close>) and the HTTP handler (\<open>internal/api/http\<close>), and serves. A request is
  traced, routed, authenticated, decoded and authorised by the handler; the evaluator resolves the
  policies in force, runs their detectors under the deadlines of detector, policy and caller, turns
  failures into decisions by the failure mode of their policy, and applies the replacements; the
  handler audits, counts and encodes the outcome.

  The theories, from the leaves up, with the code they model:
  \<^item> \<open>GR_Prelude\<close>, \<open>GR_Strings\<close>, \<open>GR_Time\<close>, \<open>GR_Float\<close>: results and nil slices, and what the program
    uses of \<open>strings\<close>, \<open>utf8\<close>, \<open>strconv\<close>, \<open>time\<close> and \<open>float64\<close>. A string is a list of bytes.
  \<^item> \<open>GR_Domain\<close>, \<open>GR_Config\<close>: \<open>internal/domain/types.go\<close> and \<open>internal/config/config.go\<close>; structs are
    records under the names of the source with a prefix for each type.
  \<^item> \<open>GR_Spans\<close>, \<open>GR_Regexp\<close>, \<open>GR_Keywords\<close>: the contract of what finds matches (a locale), regular
    expression matching, and \<open>MatchKeyword\<close>, both of which meet it.
  \<^item> \<open>GR_Policy\<close>: \<open>NewResolver\<close> and \<open>Resolve\<close> of \<open>internal/policy/resolver.go\<close>; well-formedness of every
    resolver accepted, and the exact policies in force.
  \<^item> \<open>GR_Content\<close>, \<open>GR_Redaction\<close>, \<open>GR_Secrets\<close>, \<open>GR_Detectors\<close>: the traversals, \<open>applyReplacements\<close>, the
    secret patterns and the detectors of \<open>internal/engine/evaluator.go\<close>; the contract of a detector
    is a locale, met by \<open>evaluateDetector\<close>.
  \<^item> \<open>GR_Context\<close>, \<open>GR_Tracing\<close>, \<open>GR_Decision\<close>, \<open>GR_Evaluator\<close>: contexts and deadlines, spans, failures
    and decisions, and \<open>Evaluate\<close> with its two loops. \<open>GR_Verdicts\<close> proves that the loops refine a small
    abstract machine; \<open>GR_Evaluation\<close> and \<open>GR_Readings\<close> draw the consequences for a response: the
    action is justified, closed failures block, mandatory policies are applied, an evaluation never
    panics, names come from the configuration, and how far the caller's context is followed.
  \<^item> \<open>GR_Auth\<close>: \<open>internal/auth/auth.go\<close>; who presents a token is who holds it.
  \<^item> \<open>GR_Metrics\<close>, \<open>GR_Exposition\<close>, \<open>GR_Observability\<close>: the metrics, their text, trace contexts and audit
    records of \<open>internal/observability/observability.go\<close>.
  \<^item> \<open>GR_Mux\<close>, \<open>GR_Http\<close>, \<open>GR_Api\<close>: routing, the handlers of \<open>internal/api/http/handler.go\<close>, and what they
    guarantee; two locales state what every handler, and every guarded handler, does.
  \<^item> \<open>GR_Startup\<close>: \<open>main\<close> up to the server it starts, and the exit codes.
  \<^item> \<open>GR_Service\<close>, \<open>GR_Concurrency\<close>: the observer's state over the calls of one request, and of many
    requests at once, interleaved statement by statement around its mutex.

  State. The evaluator's variables are the record \<open>eval_state\<close>, passed through \<open>detector_step\<close>,
  \<open>detector_loop\<close>, \<open>policy_step\<close> and \<open>policy_loop\<close>; the clock, the timers and the caller's context are an
  \<open>environment\<close> read by number, each reading taken once. An HTTP exchange is the record \<open>exchange\<close>: the
  response writer, the calls made on the observer, and whether a handler panicked. A Go function that
  returns an error is a \<open>result\<close>, one that may panic an option. All loops are structural recursions or
  come with a termination proof; there is no fuel. Bodies are bounded by \<open>maxBodyBytes\<close>, one
  mebibyte; counters are 64-bit words and wrap.

  Arguments of the model stand for code outside the repository: the YAML decoder, the parser of
  regular expressions, the JSON Schema compiler and validator, the decoder of one JSON value and the
  length of an encoded one, the rendering of a float and of a redirect, SHA-256, the Unicode tables,
  and the readings of clocks, timers and the random source. Theorems hold for all of them, or name
  what they need.

  Not modelled: \<open>net/http\<close>'s connections and \<open>ListenAndServe\<close>, the file read and the output format of
  \<open>slog\<close>, the escaping of HTML characters in JSON text, overflow of \<open>float64\<close> to infinity, and the
  rounding in \<open>shannonEntropy\<close>, which is a real number here: its \<open>math.Log2\<close> is not exactly specified
  and it sums in the random order of a map. \<open>WithPrincipal\<close> and \<open>PrincipalFromContext\<close> appear as the
  optional principal that the authenticated handlers receive.
\<close>

section \<open>The service from its configuration to its answers\<close>

text \<open>
  C1. From the configuration to the answer: when a service started with authentication enabled answers
  an evaluation request with 200, the request presented a token with the digest of one held by a
  configured principal, read from the environment and at least 32 bytes long; that principal's
  configuration opens the tenant of the request; the body answered is a response of the evaluator;
  and it was computed under every configured policy that the configuration makes mandatory, for the
  platform or the tenant, at the stage of the request.
\<close>

theorem service_end_to_end:
  assumes "startup pe = Inr srv" "configuration pe = Inr (address, cfg)" "ac_Enabled (cfg_Auth cfg)" "wd_sha w = pe_sha pe"
    and "dispatch (rq_Method r) (rq_URI r) (rq_EscapedPath r) = Serve Evaluations"
    and "sent_status (xc_writer (observeHTTP (sr_Handler srv) w r)) = 200"
  shows "\<exists>c token presented req resp. c \<in> set (ac_Principals (cfg_Auth cfg)) \<and> has_token (pe_env pe) c token \<and>
    parseBearer (lib_unicode (ev_library (wd_eval w))) (rq_Authorization r) = Some presented \<and> pe_sha pe presented = pe_sha pe token \<and>
    decode_request w (rq_Body r) = Inr (req, length (rq_Body r)) \<and>
    (if req_TenantID req = '''' then ap_AllowTenantless c else req_TenantID req \<in> set (ap_Tenants c) \<or> ''*'' \<in> set (ap_Tenants c)) \<and>
    wr_body (xc_writer (observeHTTP (sr_Handler srv) w r)) = [JsonChunk (response_json resp)] \<and>
    (\<forall>p \<in> set (cfg_Policies cfg). Policy_CanonicalID p \<in> set (cfg_PlatformMandatory cfg @ (case map_of (cfg_Tenants cfg) (req_TenantID req) of
         None \<Rightarrow> [] | Some ids \<Rightarrow> ids)) \<and> req_Stage req \<in> set (spec_Stages (pol_Spec p)) \<longrightarrow>
       Policy_CanonicalID p \<in> set (elems (resp_AppliedPolicies resp)))"
proof -
  let ?h = "sr_Handler srv" and ?rs = "ha_resolver (sr_Handler srv)"
  note started = started_handler[OF assms(1,2)]
  have wf: "wf_resolver ?rs" using started(1) by (simp add: wf_handler_def)
  have ctl: "NewStaticBearer (pe_sha pe) (cfg_Auth cfg) (Some (pe_env pe)) = Inr (ha_access ?h)"
    using started(3) assms(3) by (simp add: build_access_def split: sum.splits)
  obtain p req resp where a: "admitted ?h w r p req" "er_outcome (Evaluate (New_evaluator ?rs) (wd_eval w) req) = Response resp"
    "wr_body (xc_writer (observeHTTP ?h w r)) = [JsonChunk (response_json resp)]"
    by (rule admitted_200[OF started(1) assms(5,6)])
  have auth: "authenticate ?h w r = Inr p" and tenant: "tenant_allowed p (req_TenantID req)"
    using a(1) by (simp_all add: admitted_def)
  obtain req0 where dec: "decode_request w (rq_Body r) = Inr (req0, length (rq_Body r))"
    and same: "req_TenantID req0 = req_TenantID req" "req_Stage req0 = req_Stage req"
    using a(1) decode_request_Inr by (fastforce simp: admitted_def)
  from auth obtain c token presented where c: "c \<in> set (ac_Principals (cfg_Auth cfg))" "has_token (pe_env pe) c token"
    "parseBearer (lib_unicode (ev_library (wd_eval w))) (rq_Authorization r) = Some presented" "pe_sha pe presented = pe_sha pe token"
    "p = principal_of c"
    unfolding assms(4) Authenticate_iff[OF ctl] by blast
  have open_tenant: "if req_TenantID req = '''' then ap_AllowTenantless c else req_TenantID req \<in> set (ap_Tenants c) \<or> ''*'' \<in> set (ap_Tenants c)"
    using tenant c(5) by (auto simp: tenant_allowed_def principal_of_def split: if_splits)
  have "Policy_CanonicalID q \<in> set (elems (resp_AppliedPolicies resp))"
    if q: "q \<in> set (cfg_Policies cfg)" "req_Stage req \<in> set (spec_Stages (pol_Spec q))"
      "Policy_CanonicalID q \<in> set (cfg_PlatformMandatory cfg @ (case map_of (cfg_Tenants cfg) (req_TenantID req) of None \<Rightarrow> [] | Some ids \<Rightarrow> ids))" for q
  proof -
    obtain k where k: "map_of (rs_policies ?rs) (Policy_CanonicalID q) = Some k" "spec_Stages (pol_Spec (cp_Config k)) = spec_Stages (pol_Spec q)"
      by (rule NewResolver_policy[OF started(4) q(1)])
    have "Policy_CanonicalID q \<in> set (mandatory_ids ?rs (req_TenantID req))"
      using q(3) NewResolver_platform[OF started(4)] by (simp add: mandatory_ids_def)
    moreover have "cp_supports k (req_Stage req)" using k(2) q(2) by (simp add: cp_supports_def supportsStage_def)
    ultimately show ?thesis using mandatory_in_response[OF wf a(2) _ k(1)] by blast
  qed
  with c dec same open_tenant a(3) show ?thesis by metis
qed

lemma demo_server_admitted: "admitted (sr_Handler demo_server) (demo_world idle_env) (demo_http demo_auth Evaluations) demo_principal demo_request"
  using demo_admitted by (simp add: admitted_def demo_server_def New_handler_def demo_handler_wf)

lemma demo_server_response:
  "\<exists>resp. er_outcome (Evaluate (New_evaluator (ha_resolver (sr_Handler demo_server))) (wd_eval (demo_world idle_env)) demo_request) = Response resp"
proof -
  have rs: "ha_resolver (sr_Handler demo_server) = demo_resolver" by (simp add: demo_server_def New_handler_def)
  have "case Resolve demo_resolver ''demo'' '''' [] StagePreModel of Inr _ \<Rightarrow> True | Inl _ \<Rightarrow> False" by code_simp
  then obtain ps where "request_policies demo_resolver demo_request = Inr ps" by (auto simp: demo_request_def split: sum.splits)
  moreover have "ctx_Err (ev_ctx idle_env) t = None" for t by (simp add: idle_env_def Background_def ctx_Err_def)
  moreover have "wf_resolver demo_resolver" by (rule NewResolver_sound[OF demo_resolver_eq])
  note Evaluate_ends[OF this, of idle_env demo_request]
  ultimately show ?thesis
    by (auto simp: rs demo_world_def split: eval_outcome.splits eval_error.splits)
qed

theorem service_end_to_end_witness:
  "\<exists>c token presented. c \<in> set (ac_Principals (cfg_Auth demo_config)) \<and> has_token demo_env c token \<and>
     parseBearer ascii_tables demo_auth = Some presented \<and> presented = token"
proof -
  have wf: "wf_handler (sr_Handler demo_server)" by (rule started_handler(1)[OF demo_started demo_configuration])
  have ok: "sent_status (xc_writer (observeHTTP (sr_Handler demo_server) (demo_world idle_env) (demo_http demo_auth Evaluations))) = 200"
    using demo_server_response completed_200[OF wf demo_route demo_server_admitted] by blast
  have sha: "wd_sha (demo_world idle_env) = pe_sha demo_process" by (simp add: demo_world_def demo_process_def)
  have enabled: "ac_Enabled (cfg_Auth demo_config)" by (simp add: demo_config_def)
  from service_end_to_end[OF demo_started demo_configuration enabled sha demo_route ok] show ?thesis
    by (simp add: demo_process_def demo_world_def demo_http_def demo_library_tables) metis
qed

end
